theory Spec2Isabelle
  imports Complex_Main
begin

section \<open>Ant Colony Optimization for the open-path TSP (algorithms/aco.py)\<close>

text \<open>
  A shallow embedding of the class \<open>AntColonyOptimization\<close>. City indices are natural
  numbers (the negative indices that Python and numpy would wrap around are outside the
  model). A float64 is an exact real number: rounding, overflow and signed zeros are not
  modelled. The IEEE special values that the source can produce are followed as far as
  they decide the control flow: a weight of the roulette wheel that is infinite or NaN is
  the value \<open>None\<close>, and \<open>np.random.choice\<close> rejects it with a \<open>ValueError\<close>; the
  initial \<open>float('inf')\<close> of \<open>best_distance\<close> is the value \<open>PosInf\<close>; the mean of
  no distances, a NaN, is \<open>None\<close>. Only one
  place is cut short: a pheromone deposit \<open>Q / 0\<close>, where the source goes on with an
  infinite or NaN pheromone matrix, ends the model with the outcome \<open>FloatSpecial\<close>.

  Every method takes the engine (the fields of \<open>self\<close>) and returns it updated. A method
  that can raise returns its outcome (\<open>Inl\<close> the exception) together with the state at
  that moment, since an exception does not undo the assignments made before it.
\<close>

subsection \<open>Values, errors and the engine state\<close>

datatype py_error = IndexError | ValueError | FloatSpecial

datatype pyfloat = Finite real | PosInf

record engine =
  distance_matrix :: "real list list"
  num_cities :: nat
  num_ants :: int
  alpha :: real
  beta :: real
  evaporation_rate :: real
  Q :: real
  pheromones :: "real list list"
  best_tour :: "nat list option"
  best_distance :: pyfloat
  history :: "pyfloat list"

text \<open>
  \<open>np.random.choice(cities, p=probs)\<close> is numpy's, not the repository's: it is a
  parameter of the model, a function from the state of the random source, the candidate
  cities and their probabilities to the city drawn (or the exception raised) and the next
  state of the random source.
\<close>

type_synonym 'r choice = "'r \<Rightarrow> nat list \<Rightarrow> real list \<Rightarrow> (py_error + nat) \<times> 'r"

text \<open>What the documentation of \<open>np.random.choice\<close> promises: a sample is an element of
  the array it was given.\<close>

definition choice_sound :: "'r choice \<Rightarrow> bool" where
  "choice_sound choice =
     (\<forall>rng cities probs c rng'. choice rng cities probs = (Inr c, rng') \<longrightarrow> c \<in> set cities)"

subsection \<open>The constructor\<close>

definition AntColonyOptimization ::
  "real list list \<Rightarrow> int \<Rightarrow> real \<Rightarrow> real \<Rightarrow> real \<Rightarrow> real \<Rightarrow> engine" where
  "AntColonyOptimization dm ants a b rho q =
     \<lparr> distance_matrix = dm,
       num_cities = length dm,
       num_ants = ants,
       alpha = a,
       beta = b,
       evaporation_rate = rho,
       Q = q,
       pheromones = replicate (length dm) (replicate (length dm) 1),
       best_tour = None,
       best_distance = PosInf,
       history = [] \<rparr>"

subsection \<open>Reading and updating a matrix\<close>

text \<open>\<open>m[i][j]\<close> raises \<open>IndexError\<close> out of range.\<close>

definition mat_get :: "real list list \<Rightarrow> nat \<Rightarrow> nat \<Rightarrow> py_error + real" where
  "mat_get m i j =
     (if i < length m then
        (if j < length (m ! i) then Inr (m ! i ! j) else Inl IndexError)
      else Inl IndexError)"

text \<open>\<open>m[i][j] += v\<close>, in place.\<close>

definition mat_add :: "real list list \<Rightarrow> nat \<Rightarrow> nat \<Rightarrow> real \<Rightarrow> py_error + real list list" where
  "mat_add m i j v =
     (if i < length m then
        (if j < length (m ! i) then Inr (m[i := (m ! i)[j := m ! i ! j + v]])
         else Inl IndexError)
      else Inl IndexError)"

subsection \<open>calculate_distance\<close>

fun calculate_distance_loop :: "real list list \<Rightarrow> nat list \<Rightarrow> real \<Rightarrow> py_error + real" where
  "calculate_distance_loop dm (a # b # rest) distance =
     (case mat_get dm a b of
        Inl err \<Rightarrow> Inl err
      | Inr d \<Rightarrow> calculate_distance_loop dm (b # rest) (distance + d))"
| "calculate_distance_loop dm [a] distance = Inr distance"
| "calculate_distance_loop dm [] distance = Inr distance"

definition calculate_distance :: "engine \<Rightarrow> nat list \<Rightarrow> py_error + real" where
  "calculate_distance e tour = calculate_distance_loop (distance_matrix e) tour 0"

subsection \<open>select_next_city\<close>

text \<open>
  \<open>x ** a\<close> on float64. \<open>None\<close> is a result that is infinite or NaN: zero to a
  negative power, a negative base to a power that is not an integer.
\<close>

definition np_power :: "real \<Rightarrow> real \<Rightarrow> real option" where
  "np_power x a =
     (if a = 0 then Some 1
      else if 0 < x then Some (x powr a)
      else if x = 0 then (if 0 < a then Some 0 else None)
      else if a \<in> \<int> then Some (x powi \<lfloor>a\<rfloor>)
      else None)"

text \<open>
  \<open>(1.0 / d) ** b\<close>. The matrix entries are numpy floats, so \<open>1.0 / 0\<close> is an
  infinity and raises nothing; the power of an infinity is 1 for \<open>b = 0\<close>, 0 for
  \<open>b < 0\<close> and an infinity otherwise.
\<close>

definition inverse_power :: "real \<Rightarrow> real \<Rightarrow> real option" where
  "inverse_power d b =
     (if d = 0 then (if b = 0 then Some 1 else if b < 0 then Some 0 else None)
      else np_power (1 / d) b)"

text \<open>\<open>pheromone * distance\<close>: a product with an infinite or NaN factor is infinite or NaN.\<close>

definition np_times :: "real option \<Rightarrow> real option \<Rightarrow> real option" where
  "np_times x y = (case x of None \<Rightarrow> None | Some u \<Rightarrow> (case y of None \<Rightarrow> None | Some v \<Rightarrow> Some (u * v)))"

text \<open>The \<open>for city in range(self.num_cities)\<close> loop that fills \<open>probabilities\<close>.\<close>

fun probabilities_loop ::
  "engine \<Rightarrow> nat \<Rightarrow> nat set \<Rightarrow> nat \<Rightarrow> nat list \<Rightarrow> (nat \<times> real option) list
     \<Rightarrow> py_error + (nat \<times> real option) list" where
  "probabilities_loop e current_city visited end_city [] probabilities = Inr probabilities"
| "probabilities_loop e current_city visited end_city (city # rest) probabilities =
     (if city \<notin> visited \<and> city \<noteq> end_city then
        (case mat_get (pheromones e) current_city city of
           Inl err \<Rightarrow> Inl err
         | Inr ph \<Rightarrow>
             (case mat_get (distance_matrix e) current_city city of
                Inl err \<Rightarrow> Inl err
              | Inr d \<Rightarrow>
                  probabilities_loop e current_city visited end_city rest
                    (probabilities @
                       [(city, np_times (np_power ph (alpha e)) (inverse_power d (beta e)))])))
      else probabilities_loop e current_city visited end_city rest probabilities)"

text \<open>
  The roulette wheel. A weight that is infinite or NaN makes its own probability NaN
  (\<open>inf / inf\<close>, or a division by a NaN sum), and so does a sum of zero;
  \<open>np.random.choice\<close> raises \<open>ValueError\<close> on such probabilities before it draws.
\<close>

definition select_next_city ::
  "'r choice \<Rightarrow> engine \<Rightarrow> nat \<Rightarrow> nat set \<Rightarrow> nat \<Rightarrow> 'r \<Rightarrow> (py_error + nat) \<times> 'r" where
  "select_next_city choice e current_city visited end_city rng =
     (case probabilities_loop e current_city visited end_city [0..<num_cities e] [] of
        Inl err \<Rightarrow> (Inl err, rng)
      | Inr probabilities \<Rightarrow>
          if probabilities = [] then (Inr end_city, rng)
          else
            (let cities = map fst probabilities;
                 probs = map snd probabilities
             in if None \<in> set probs then (Inl ValueError, rng)
                else
                  (let ws = map the probs; total = sum_list ws
                   in if total = 0 then (Inl ValueError, rng)
                      else choice rng cities (map (\<lambda>w. w / total) ws))))"

subsection \<open>construct_solution\<close>

function construct_loop ::
  "'r choice \<Rightarrow> engine \<Rightarrow> nat \<Rightarrow> nat list \<Rightarrow> nat set \<Rightarrow> nat \<Rightarrow> 'r \<Rightarrow> (py_error + nat list) \<times> 'r" where
  "construct_loop choice e end_city tour visited current_city rng =
     (if int (length tour) < int (num_cities e) - 1 then
        (case select_next_city choice e current_city visited end_city rng of
           (Inl err, rng') \<Rightarrow> (Inl err, rng')
         | (Inr next_city, rng') \<Rightarrow>
             construct_loop choice e end_city (tour @ [next_city]) (insert next_city visited)
               next_city rng')
      else (Inr tour, rng))"
  by pat_completeness auto
termination
  by (relation "measure (\<lambda>(choice, e, end_city, tour, visited, current_city, rng).
        num_cities e - length tour)") auto

declare construct_loop.simps [simp del]

definition construct_solution ::
  "'r choice \<Rightarrow> engine \<Rightarrow> nat \<Rightarrow> nat \<Rightarrow> 'r \<Rightarrow> (py_error + nat list) \<times> 'r" where
  "construct_solution choice e start_city end_city rng =
     (case construct_loop choice e end_city [start_city] {start_city} start_city rng of
        (Inl err, rng') \<Rightarrow> (Inl err, rng')
      | (Inr tour, rng') \<Rightarrow> (Inr (tour @ [end_city]), rng'))"

subsection \<open>update_pheromones\<close>

text \<open>\<open>self.Q / distance\<close>; a division by zero is where the model ends.\<close>

definition np_divide :: "real \<Rightarrow> real \<Rightarrow> py_error + real" where
  "np_divide x y = (if y = 0 then Inl FloatSpecial else Inr (x / y))"

text \<open>The inner loop over the consecutive pairs of one tour.\<close>

fun deposit_loop ::
  "real list list \<Rightarrow> nat list \<Rightarrow> real \<Rightarrow> (py_error + unit) \<times> real list list" where
  "deposit_loop ph (a # b # rest) deposit =
     (case mat_add ph a b deposit of
        Inl err \<Rightarrow> (Inl err, ph)
      | Inr ph1 \<Rightarrow>
          (case mat_add ph1 b a deposit of
             Inl err \<Rightarrow> (Inl err, ph1)
           | Inr ph2 \<Rightarrow> deposit_loop ph2 (b # rest) deposit))"
| "deposit_loop ph [a] deposit = (Inr (), ph)"
| "deposit_loop ph [] deposit = (Inr (), ph)"

text \<open>The outer loop over \<open>all_tours\<close>.\<close>

fun tours_loop ::
  "real \<Rightarrow> real list list \<Rightarrow> (nat list \<times> real) list \<Rightarrow> (py_error + unit) \<times> real list list" where
  "tours_loop q ph [] = (Inr (), ph)"
| "tours_loop q ph ((tour, distance) # rest) =
     (case np_divide q distance of
        Inl err \<Rightarrow> (Inl err, ph)
      | Inr deposit \<Rightarrow>
          (case deposit_loop ph tour deposit of
             (Inl err, ph') \<Rightarrow> (Inl err, ph')
           | (Inr u, ph') \<Rightarrow> tours_loop q ph' rest))"

definition evaporate :: "real \<Rightarrow> real list list \<Rightarrow> real list list" where
  "evaporate rho ph = map (map (\<lambda>x. x * (1 - rho))) ph"

definition update_pheromones ::
  "engine \<Rightarrow> (nat list \<times> real) list \<Rightarrow> (py_error + unit) \<times> engine" where
  "update_pheromones e all_tours =
     (case tours_loop (Q e) (evaporate (evaporation_rate e) (pheromones e)) all_tours of
        (r, ph') \<Rightarrow> (r, e\<lparr>pheromones := ph'\<rparr>))"

subsection \<open>run_iteration\<close>

text \<open>\<open>distance < self.best_distance\<close>.\<close>

fun less_best :: "real \<Rightarrow> pyfloat \<Rightarrow> bool" where
  "less_best d (Finite b) = (d < b)"
| "less_best d PosInf = True"

text \<open>\<open>np.mean\<close>: NaN (and a warning) on the empty list.\<close>

definition np_mean :: "real list \<Rightarrow> real option" where
  "np_mean ds = (if ds = [] then None else Some (sum_list ds / real (length ds)))"

text \<open>The \<open>for _ in range(self.num_ants)\<close> loop.\<close>

fun ants_loop ::
  "'r choice \<Rightarrow> nat \<Rightarrow> nat \<Rightarrow> nat \<Rightarrow> engine \<Rightarrow> 'r \<Rightarrow> (nat list \<times> real) list
     \<Rightarrow> (py_error + (nat list \<times> real) list) \<times> engine \<times> 'r" where
  "ants_loop choice 0 start_city end_city e rng all_tours = (Inr all_tours, e, rng)"
| "ants_loop choice (Suc n) start_city end_city e rng all_tours =
     (case construct_solution choice e start_city end_city rng of
        (Inl err, rng') \<Rightarrow> (Inl err, e, rng')
      | (Inr tour, rng') \<Rightarrow>
          (case calculate_distance e tour of
             Inl err \<Rightarrow> (Inl err, e, rng')
           | Inr distance \<Rightarrow>
               ants_loop choice n start_city end_city
                 (if less_best distance (best_distance e)
                  then e\<lparr>best_distance := Finite distance, best_tour := Some tour\<rparr>
                  else e)
                 rng' (all_tours @ [(tour, distance)])))"

definition run_iteration ::
  "'r choice \<Rightarrow> engine \<Rightarrow> nat \<Rightarrow> nat \<Rightarrow> 'r
     \<Rightarrow> (py_error + (nat list option \<times> pyfloat \<times> real option)) \<times> engine \<times> 'r" where
  "run_iteration choice e start_city end_city rng =
     (case ants_loop choice (nat (num_ants e)) start_city end_city e rng [] of
        (Inl err, e1, rng1) \<Rightarrow> (Inl err, e1, rng1)
      | (Inr all_tours, e1, rng1) \<Rightarrow>
          (case update_pheromones e1 all_tours of
             (Inl err, e2) \<Rightarrow> (Inl err, e2, rng1)
           | (Inr u, e2) \<Rightarrow>
               (let e3 = e2\<lparr>history := history e2 @ [best_distance e2]\<rparr>;
                    avg_distance = np_mean (map snd all_tours)
                in (Inr (best_tour e3, best_distance e3, avg_distance), e3, rng1))))"

subsection \<open>Repeated generations\<close>

text \<open>
  A caller that invokes \<open>run_iteration\<close> once for each pair \<open>(start_city, end_city)\<close>
  of a list and collects what the calls return; the first exception ends the run.
\<close>

fun run_calls ::
  "'r choice \<Rightarrow> (nat \<times> nat) list \<Rightarrow> engine \<Rightarrow> 'r
     \<Rightarrow> (py_error + (nat list option \<times> pyfloat \<times> real option) list) \<times> engine \<times> 'r" where
  "run_calls choice [] e rng = (Inr [], e, rng)"
| "run_calls choice ((start_city, end_city) # calls) e rng =
     (case run_iteration choice e start_city end_city rng of
        (Inl err, e', rng') \<Rightarrow> (Inl err, e', rng')
      | (Inr res, e', rng') \<Rightarrow>
          (case run_calls choice calls e' rng' of
             (Inl err, e'', rng'') \<Rightarrow> (Inl err, e'', rng'')
           | (Inr results, e'', rng'') \<Rightarrow> (Inr (res # results), e'', rng'')))"

text \<open>The order of the floats that \<open>best_distance\<close> takes.\<close>

fun float_le :: "pyfloat \<Rightarrow> pyfloat \<Rightarrow> bool" where
  "float_le (Finite x) (Finite y) = (x \<le> y)"
| "float_le x PosInf = True"
| "float_le PosInf (Finite y) = False"

fun float_less :: "pyfloat \<Rightarrow> pyfloat \<Rightarrow> bool" where
  "float_less (Finite x) (Finite y) = (x < y)"
| "float_less (Finite x) PosInf = True"
| "float_less PosInf y = False"

subsection \<open>The loop of construct_solution as a step relation\<close>

text \<open>
  The states \<open>(tour, visited, current_city, rng)\<close> that the \<open>while\<close> loop of
  \<open>construct_solution\<close> goes through: the state at entry, and the state after each
  iteration whose call of \<open>select_next_city\<close> returned.
\<close>

inductive loop_state ::
  "'r choice \<Rightarrow> engine \<Rightarrow> nat \<Rightarrow> nat \<Rightarrow> 'r \<Rightarrow> nat list \<times> nat set \<times> nat \<times> 'r \<Rightarrow> bool"
  for choice e start_city end_city rng0 where
  entry: "loop_state choice e start_city end_city rng0 ([start_city], {start_city}, start_city, rng0)"
| iteration:
  "loop_state choice e start_city end_city rng0 (tour, visited, current_city, rng) \<Longrightarrow>
   int (length tour) < int (num_cities e) - 1 \<Longrightarrow>
   select_next_city choice e current_city visited end_city rng = (Inr next_city, rng') \<Longrightarrow>
   loop_state choice e start_city end_city rng0
     (tour @ [next_city], insert next_city visited, next_city, rng')"

text \<open>The candidates of \<open>select_next_city\<close>, in the words of the specification: the
  cities that are not visited and are not the end city.\<close>

definition candidates :: "nat \<Rightarrow> nat set \<Rightarrow> nat \<Rightarrow> nat list" where
  "candidates n visited end_city = filter (\<lambda>city. city \<notin> visited \<and> city \<noteq> end_city) [0..<n]"

text \<open>The invariant of the loop.\<close>

definition tour_inv :: "nat \<Rightarrow> nat \<Rightarrow> nat \<Rightarrow> nat list \<Rightarrow> nat set \<Rightarrow> bool" where
  "tour_inv n start_city end_city tour visited =
     (tour \<noteq> [] \<and> hd tour = start_city \<and> distinct tour \<and> set tour = visited
      \<and> visited \<subseteq> {0..<n} \<and> end_city \<notin> visited)"

subsection \<open>The weights of the roulette wheel, as the specification states them\<close>

text \<open>\<open>pheromone[current][c]^\<alpha> \<times> (1/distance[current][c])^\<beta>\<close>, with the power of
  the real numbers.\<close>

definition spec_weight :: "engine \<Rightarrow> nat \<Rightarrow> nat \<Rightarrow> real" where
  "spec_weight e current_city c =
     (pheromones e ! current_city ! c) powr alpha e
       * (1 / distance_matrix e ! current_city ! c) powr beta e"

text \<open>An entry that can be read and is positive.\<close>

definition readable_positive :: "real list list \<Rightarrow> nat \<Rightarrow> nat \<Rightarrow> bool" where
  "readable_positive m i j = (i < length m \<and> j < length (m ! i) \<and> 0 < m ! i ! j)"

subsection \<open>The pheromone update, as the specification states it\<close>

text \<open>An \<open>n \<times> n\<close> matrix.\<close>

definition square :: "nat \<Rightarrow> real list list \<Rightarrow> bool" where
  "square n m = (length m = n \<and> (\<forall>row \<in> set m. length row = n))"

text \<open>
  What one tour adds to the entry \<open>(i, j)\<close>: the deposit once for each consecutive pair
  \<open>(a, b)\<close> of the tour with \<open>(a, b) = (i, j)\<close>, and once for each with
  \<open>(b, a) = (i, j)\<close>.
\<close>

definition edge_deposits :: "nat list \<Rightarrow> real \<Rightarrow> nat \<Rightarrow> nat \<Rightarrow> real" where
  "edge_deposits tour deposit i j =
     (\<Sum>k < length tour - 1.
        (if tour ! k = i \<and> tour ! (k + 1) = j then deposit else 0)
        + (if tour ! (k + 1) = i \<and> tour ! k = j then deposit else 0))"

text \<open>The entry \<open>(i, j)\<close> after the update: evaporated, then the deposits
  \<open>Q / distance\<close> of every tour.\<close>

definition spec_pheromone :: "engine \<Rightarrow> (nat list \<times> real) list \<Rightarrow> nat \<Rightarrow> nat \<Rightarrow> real" where
  "spec_pheromone e all_tours i j =
     pheromones e ! i ! j * (1 - evaporation_rate e)
     + (\<Sum>(tour, distance) \<leftarrow> all_tours. edge_deposits tour (Q e / distance) i j)"

subsection \<open>What tour construction reads of the engine\<close>

text \<open>Two engine states that differ at most in the best tour, the best distance and the
  history (and the number of ants and the parameters of the update).\<close>

definition same_colony :: "engine \<Rightarrow> engine \<Rightarrow> bool" where
  "same_colony e e' =
     (distance_matrix e' = distance_matrix e \<and> num_cities e' = num_cities e
      \<and> alpha e' = alpha e \<and> beta e' = beta e \<and> pheromones e' = pheromones e)"

subsection \<open>The tours passed to the pheromone update\<close>

text \<open>
  The (tour, distance) pairs that a run of \<open>run_calls\<close> hands to
  \<open>update_pheromones\<close>, generation after generation: the function follows
  \<open>run_iteration\<close> and collects each \<open>all_tours\<close>.
\<close>

fun tours_passed ::
  "'r choice \<Rightarrow> (nat \<times> nat) list \<Rightarrow> engine \<Rightarrow> 'r \<Rightarrow> (nat list \<times> real) list" where
  "tours_passed choice [] e rng = []"
| "tours_passed choice ((start_city, end_city) # calls) e rng =
     (case ants_loop choice (nat (num_ants e)) start_city end_city e rng [] of
        (Inl err, e1, rng1) \<Rightarrow> []
      | (Inr all_tours, e1, rng1) \<Rightarrow>
          all_tours @
          (case update_pheromones e1 all_tours of
             (Inl err, e2) \<Rightarrow> []
           | (Inr u, e2) \<Rightarrow>
               tours_passed choice calls (e2\<lparr>history := history e2 @ [best_distance e2]\<rparr>) rng1))"

text \<open>An \<open>n \<times> n\<close> matrix that is symmetric and has no negative entry.\<close>

definition symmetric_nonneg :: "nat \<Rightarrow> real list list \<Rightarrow> bool" where
  "symmetric_nonneg n m =
     (square n m \<and> (\<forall>i < n. \<forall>j < n. m ! i ! j = m ! j ! i \<and> 0 \<le> m ! i ! j))"

subsection \<open>The history of best distances\<close>

text \<open>The history never increases, and the best distance is no larger than any of its
  entries.\<close>

definition history_inv :: "engine \<Rightarrow> bool" where
  "history_inv e =
     (sorted_wrt (\<lambda>x y. float_le y x) (history e)
      \<and> (\<forall>x \<in> set (history e). float_le (best_distance e) x))"

subsection \<open>A random source for the examples\<close>

text \<open>
  A roulette wheel over a list of uniform draws from \<open>[0, 1)\<close>, one draw for each call:
  the city whose interval of the cumulated probabilities holds the draw. As
  \<open>np.random.choice\<close> does, it rejects probabilities that are negative or do not sum
  to 1.
\<close>

fun roulette :: "real \<Rightarrow> nat list \<Rightarrow> real list \<Rightarrow> nat option" where
  "roulette u (c # cities) (p # probs) = (if u < p then Some c else roulette (u - p) cities probs)"
| "roulette u cities probs = None"

definition draws_choice :: "real list choice" where
  "draws_choice rng cities probs =
     (case rng of
        [] \<Rightarrow> (Inl ValueError, [])
      | u # rest \<Rightarrow>
          if (\<exists>p \<in> set probs. p < 0) \<or> sum_list probs \<noteq> 1 then (Inl ValueError, rng)
          else (case roulette u cities probs of
                  None \<Rightarrow> (Inl ValueError, rest)
                | Some c \<Rightarrow> (Inr c, rest)))"

subsection \<open>A small instance\<close>

text \<open>Four cities with pairwise different distances; the theorems below are run on it.\<close>

definition demo_matrix :: "real list list" where
  "demo_matrix = [[0, 1, 2, 3], [1, 0, 4, 5], [2, 4, 0, 6], [3, 5, 6, 0]]"

definition demo_engine :: engine where
  "demo_engine = AntColonyOptimization demo_matrix 2 1 1 (1 / 2) 100"

section \<open>Properties\<close>

subsection \<open>Tour length\<close>

lemma calculate_distance_loop_sum:
  assumes "\<forall>i < length tour - 1. tour ! i < length dm \<and> tour ! (i + 1) < length (dm ! (tour ! i))"
  shows "calculate_distance_loop dm tour acc =
           Inr (acc + (\<Sum>i < length tour - 1. dm ! (tour ! i) ! (tour ! (i + 1))))"
  using assms
proof (induction dm tour acc rule: calculate_distance_loop.induct)
  case (1 dm a b rest distance)
  from "1.prems" have ab: "a < length dm" "b < length (dm ! a)"
    by force+
  have rest: "\<forall>i < length (b # rest) - 1. (b # rest) ! i < length dm \<and>
                (b # rest) ! (i + 1) < length (dm ! ((b # rest) ! i))"
  proof (intro allI impI)
    fix i assume "i < length (b # rest) - 1"
    then have "Suc i < length (a # b # rest) - 1" by simp
    with "1.prems" have "(a # b # rest) ! Suc i < length dm \<and>
        (a # b # rest) ! (Suc i + 1) < length (dm ! ((a # b # rest) ! Suc i))" by blast
    then show "(b # rest) ! i < length dm \<and> (b # rest) ! (i + 1) < length (dm ! ((b # rest) ! i))"
      by simp
  qed
  have get: "mat_get dm a b = Inr (dm ! a ! b)"
    using ab by (simp add: mat_get_def)
  have "(\<Sum>i < length (a # b # rest) - 1. dm ! ((a # b # rest) ! i) ! ((a # b # rest) ! (i + 1)))
        = dm ! a ! b + (\<Sum>i < length (b # rest) - 1. dm ! ((b # rest) ! i) ! ((b # rest) ! (i + 1)))"
    by (simp add: sum.lessThan_Suc_shift del: sum.lessThan_Suc)
  then show ?case
    using "1.IH"[OF get rest] get by (simp add: add.assoc)
qed simp_all

text \<open>
  Claim C8. For a tour of length at least 2, \<open>calculate_distance\<close> returns the sum of
  \<open>distance_matrix[tour[i]][tour[i+1]]\<close> over the consecutive positions of the tour, and
  for a tour of length 1 it returns 0. A tour is a sequence of city indices: the entries
  the sum reads are entries of the matrix (out of range the source raises
  \<open>IndexError\<close>).
\<close>

theorem calculate_distance_consecutive_sum:
  assumes "\<forall>i < length tour - 1. tour ! i < length (distance_matrix e) \<and>
             tour ! (i + 1) < length (distance_matrix e ! (tour ! i))"
  shows "(2 \<le> length tour \<longrightarrow>
            calculate_distance e tour =
              Inr (\<Sum>i < length tour - 1. distance_matrix e ! (tour ! i) ! (tour ! (i + 1))))
         \<and> (length tour = 1 \<longrightarrow> calculate_distance e tour = Inr 0)"
  using calculate_distance_loop_sum[OF assms, of 0]
  by (auto simp: calculate_distance_def)

theorem calculate_distance_consecutive_sum_witness:
  "calculate_distance demo_engine [0, 1, 3, 2] = Inr 12 \<and> calculate_distance demo_engine [2] = Inr 0"
proof -
  have dm: "distance_matrix demo_engine = demo_matrix"
    by (simp add: demo_engine_def AntColonyOptimization_def)
  have h4: "\<forall>i < length [0, 1, 3, 2::nat] - 1. [0, 1, 3, 2] ! i < length (distance_matrix demo_engine) \<and>
             [0, 1, 3, 2] ! (i + 1) < length (distance_matrix demo_engine ! ([0, 1, 3, 2] ! i))"
    by (simp add: dm demo_matrix_def less_Suc_eq numeral_3_eq_3)
  have h1: "\<forall>i < length [2::nat] - 1. [2] ! i < length (distance_matrix demo_engine) \<and>
             [2] ! (i + 1) < length (distance_matrix demo_engine ! ([2] ! i))"
    by simp
  have "calculate_distance demo_engine [0, 1, 3, 2] =
          Inr (\<Sum>i < length [0, 1, 3, 2::nat] - 1.
                 distance_matrix demo_engine ! ([0, 1, 3, 2] ! i) ! ([0, 1, 3, 2] ! (i + 1)))"
    using calculate_distance_consecutive_sum[OF h4] by simp
  moreover have "calculate_distance demo_engine [2] = Inr 0"
    using calculate_distance_consecutive_sum[OF h1] by simp
  ultimately show ?thesis
    by (simp add: dm demo_matrix_def numeral_3_eq_3)
qed

subsection \<open>Construction\<close>

text \<open>
  Claim C5 says that construction fails with \<open>InvalidInput\<close> for a matrix with fewer
  than 3 rows or one that is not square. \<open>__init__\<close> validates nothing: here it builds
  an engine from a matrix of 2 rows and 3 columns.
\<close>

theorem construction_without_validation_counterexample:
  "AntColonyOptimization [[0, 1, 5], [1, 0, 7]] 30 1 5 (1 / 2) 100 =
     \<lparr> distance_matrix = [[0, 1, 5], [1, 0, 7]], num_cities = 2, num_ants = 30, alpha = 1,
       beta = 5, evaporation_rate = 1 / 2, Q = 100, pheromones = [[1, 1], [1, 1]],
       best_tour = None, best_distance = PosInf, history = [] \<rparr>"
  by (simp add: AntColonyOptimization_def numeral_2_eq_2)

text \<open>
  Claim C5, amended. For every distance matrix and every choice of parameters,
  construction yields an engine: \<open>num_cities\<close> is the number of rows, the pheromone
  matrix has that many rows and reads 1 at every pair of indices below it, there is no
  best tour, the best distance is infinite and the history is empty.
\<close>

theorem construction_always_succeeds:
  "num_cities (AntColonyOptimization dm ants a b rho q) = length dm
   \<and> length (pheromones (AntColonyOptimization dm ants a b rho q)) = length dm
   \<and> (\<forall>i < length dm. \<forall>j < length dm.
        mat_get (pheromones (AntColonyOptimization dm ants a b rho q)) i j = Inr 1)
   \<and> best_tour (AntColonyOptimization dm ants a b rho q) = None
   \<and> best_distance (AntColonyOptimization dm ants a b rho q) = PosInf
   \<and> history (AntColonyOptimization dm ants a b rho q) = []"
  by (simp add: AntColonyOptimization_def mat_get_def)

theorem construction_always_succeeds_witness:
  "num_cities (AntColonyOptimization [[0, 1, 5], [1, 0, 7]] 30 1 5 (1 / 2) 100) = 2
   \<and> mat_get (pheromones (AntColonyOptimization [[0, 1, 5], [1, 0, 7]] 30 1 5 (1 / 2) 100)) 1 0 = Inr 1
   \<and> best_distance (AntColonyOptimization [[0, 1, 5], [1, 0, 7]] 30 1 5 (1 / 2) 100) = PosInf"
  using construction_always_succeeds[of "[[0, 1, 5], [1, 0, 7]]" 30 1 5 "1 / 2" 100]
  by simp

subsection \<open>Tour construction\<close>

lemma roulette_member: "roulette u cities probs = Some c \<Longrightarrow> c \<in> set cities"
  by (induction u cities probs rule: roulette.induct) (auto split: if_splits)

lemma draws_choice_sound: "choice_sound draws_choice"
  by (auto simp: choice_sound_def draws_choice_def split: list.splits if_splits option.splits
      dest: roulette_member)

lemma probabilities_loop_cities:
  "probabilities_loop e cur vis t cs acc = Inr ps \<Longrightarrow>
     map fst ps = map fst acc @ filter (\<lambda>city. city \<notin> vis \<and> city \<noteq> t) cs"
  by (induction cs arbitrary: acc) (auto split: if_splits sum.splits)

lemma select_next_city_result:
  assumes "choice_sound choice"
    and "select_next_city choice e cur vis t rng = (Inr c, rng')"
  shows "(candidates (num_cities e) vis t = [] \<and> c = t \<and> rng' = rng)
         \<or> c \<in> set (candidates (num_cities e) vis t)"
proof (cases "probabilities_loop e cur vis t [0..<num_cities e] []")
  case (Inl err)
  with assms(2) show ?thesis by (simp add: select_next_city_def)
next
  case (Inr ps)
  from probabilities_loop_cities[OF Inr]
  have cs: "map fst ps = candidates (num_cities e) vis t"
    by (simp add: candidates_def)
  show ?thesis
  proof (cases "ps = []")
    case True
    with assms(2) Inr cs show ?thesis by (simp add: select_next_city_def)
  next
    case False
    with assms(2) Inr have "\<exists>probs. choice rng (map fst ps) probs = (Inr c, rng')"
      by (auto simp: select_next_city_def Let_def split: if_splits)
    with assms(1) have "c \<in> set (map fst ps)"
      unfolding choice_sound_def by blast
    with cs show ?thesis by simp
  qed
qed

lemma candidates_set: "set (candidates n vis t) = {0..<n} - vis - {t}"
  by (auto simp: candidates_def)

lemma tour_inv_length:
  assumes "tour_inv n s t tour vis" "t < n"
  shows "length tour \<le> n - 1"
proof -
  from assms have "set tour \<subseteq> {0..<n} - {t}" by (auto simp: tour_inv_def)
  then have "card (set tour) \<le> card ({0..<n} - {t})" by (intro card_mono) auto
  moreover from assms have "distinct tour" by (simp add: tour_inv_def)
  then have "card (set tour) = length tour" by (rule distinct_card)
  moreover from assms(2) have "card ({0..<n} - {t}) = n - 1" by simp
  ultimately show ?thesis by simp
qed

lemma candidates_nonempty:
  assumes "tour_inv n s t tour vis" "t < n" "int (length tour) < int n - 1"
  shows "candidates n vis t \<noteq> []"
proof
  assume "candidates n vis t = []"
  then have "{0..<n} - vis - {t} = {}" using candidates_set[of n vis t] by simp
  then have "{0..<n} \<subseteq> insert t (set tour)" using assms(1) by (auto simp: tour_inv_def)
  then have "card {0..<n} \<le> card (insert t (set tour))" by (intro card_mono) auto
  also have "\<dots> \<le> Suc (length tour)"
    by (metis card_length le_SucI Suc_le_mono card_insert_if finite_set)
  finally show False using assms(3) by simp
qed

lemma tour_inv_step:
  assumes "tour_inv n s t tour vis" "c \<in> set (candidates n vis t)"
  shows "tour_inv n s t (tour @ [c]) (insert c vis)"
  using assms by (auto simp: tour_inv_def candidates_def)


lemma construct_loop_result:
  "choice_sound choice \<Longrightarrow> t < num_cities e \<Longrightarrow> tour_inv (num_cities e) s t tour vis \<Longrightarrow>
   construct_loop choice e t tour vis cur rng = (Inr tour', rng') \<Longrightarrow>
   tour_inv (num_cities e) s t tour' (set tour') \<and> length tour' = num_cities e - 1"
proof (induction choice e t tour vis cur rng rule: construct_loop.induct)
  case (1 choice e end_city tour visited current_city rng)
  show ?case
  proof (cases "int (length tour) < int (num_cities e) - 1")
    case True
    from "1.prems"(4) True obtain c r where
      sel: "select_next_city choice e current_city visited end_city rng = (Inr c, r)" and
      rec: "construct_loop choice e end_city (tour @ [c]) (insert c visited) c r = (Inr tour', rng')"
      by (subst (asm) construct_loop.simps) (auto split: prod.splits sum.splits)
    from candidates_nonempty[OF "1.prems"(3) "1.prems"(2) True]
      select_next_city_result[OF "1.prems"(1) sel]
    have "c \<in> set (candidates (num_cities e) visited end_city)" by blast
    then have "tour_inv (num_cities e) s end_city (tour @ [c]) (insert c visited)"
      by (rule tour_inv_step[OF "1.prems"(3)])
    from "1.IH"[OF True sel[symmetric] refl "1.prems"(1) "1.prems"(2) this rec]
    show ?thesis .
  next
    case False
    from "1.prems"(4) False have eq: "tour' = tour"
      by (subst (asm) construct_loop.simps) simp
    from tour_inv_length[OF "1.prems"(3) "1.prems"(2)] False
    have "length tour = num_cities e - 1" by linarith
    with eq "1.prems"(3) show ?thesis by (auto simp: tour_inv_def)
  qed
qed

lemma tour_inv_entry: "s \<noteq> t \<Longrightarrow> s < n \<Longrightarrow> tour_inv n s t [s] {s}"
  by (simp add: tour_inv_def)

lemma construct_solution_shape:
  assumes "choice_sound choice" "s < num_cities e" "t < num_cities e" "s \<noteq> t"
    and "construct_solution choice e s t rng = (Inr tour, rng')"
  shows "\<exists>body. tour = body @ [t] \<and> tour_inv (num_cities e) s t body (set body)
            \<and> length body = num_cities e - 1"
proof -
  from assms(5) obtain body where
    loop: "construct_loop choice e t [s] {s} s rng = (Inr body, rng')" and tour: "tour = body @ [t]"
    by (auto simp: construct_solution_def split: prod.splits sum.splits)
  from construct_loop_result[OF assms(1) assms(3) tour_inv_entry[OF assms(4) assms(2)] loop] tour
  show ?thesis by blast
qed

lemma demo_fields:
  "num_cities demo_engine = 4" "distance_matrix demo_engine = demo_matrix"
  "alpha demo_engine = 1" "beta demo_engine = 1"
  by (simp_all add: demo_engine_def AntColonyOptimization_def demo_matrix_def)

lemma demo_pheromones:
  "pheromones demo_engine = [[1, 1, 1, 1], [1, 1, 1, 1], [1, 1, 1, 1], [1, 1, 1, 1]]"
  by (simp add: demo_engine_def AntColonyOptimization_def demo_matrix_def numeral_eq_Suc)

lemma demo_select_0:
  "select_next_city draws_choice demo_engine 0 {0} 2 (9 / 10 # rest) = (Inr 3, rest)"
  by (simp add: select_next_city_def demo_fields demo_pheromones demo_matrix_def
      mat_get_def np_power_def inverse_power_def np_times_def draws_choice_def Let_def
      upt_conv_Cons)

lemma demo_select_3:
  "select_next_city draws_choice demo_engine 3 {3, 0} 2 (1 / 2 # rest) = (Inr 1, rest)"
  by (simp add: select_next_city_def demo_fields demo_pheromones demo_matrix_def
      mat_get_def np_power_def inverse_power_def np_times_def draws_choice_def Let_def
      upt_conv_Cons)

lemma demo_construct:
  "construct_solution draws_choice demo_engine 0 2 (9 / 10 # 1 / 2 # rest) = (Inr [0, 3, 1, 2], rest)"
  by (simp add: construct_solution_def construct_loop.simps demo_select_0 demo_select_3
      demo_fields)

text \<open>
  Claim C1. For valid indices \<open>start \<noteq> end\<close> below N, every tour returned by
  \<open>construct_solution\<close> is a permutation of the N city indices: it has length N, holds
  exactly the indices \<open>0, ..., N-1\<close>, none of them twice, starts with \<open>start\<close> and ends
  with \<open>end\<close>. (\<open>np.random.choice\<close> returns an element of the array it is given.)
\<close>

theorem construct_solution_permutation:
  assumes "choice_sound choice"
    and "start_city < num_cities e" and "end_city < num_cities e" and "start_city \<noteq> end_city"
    and "construct_solution choice e start_city end_city rng = (Inr tour, rng')"
  shows "length tour = num_cities e \<and> set tour = {0..<num_cities e} \<and> distinct tour
         \<and> tour ! 0 = start_city \<and> tour ! (num_cities e - 1) = end_city"
proof -
  from construct_solution_shape[OF assms] obtain body where
    tour: "tour = body @ [end_city]" and
    inv: "tour_inv (num_cities e) start_city end_city body (set body)" and
    len: "length body = num_cities e - 1"
    by blast
  from inv have body: "body \<noteq> []" "hd body = start_city" "distinct body"
    "set body \<subseteq> {0..<num_cities e}" "end_city \<notin> set body"
    by (auto simp: tour_inv_def)
  have "card (insert end_city (set body)) = num_cities e"
    using body(3,5) len assms(3) by (simp add: distinct_card)
  moreover have "insert end_city (set body) \<subseteq> {0..<num_cities e}"
    using body(4) assms(3) by auto
  ultimately have "insert end_city (set body) = {0..<num_cities e}"
    by (intro card_subset_eq) auto
  moreover have "tour ! 0 = start_city"
    using body(1,2) tour by (simp add: nth_append hd_conv_nth)
  moreover have "tour ! (num_cities e - 1) = end_city"
    using tour len by (simp add: nth_append)
  ultimately show ?thesis
    using tour len body(3,5) assms(3) by auto
qed

theorem construct_solution_permutation_witness:
  "construct_solution draws_choice demo_engine 0 2 [9 / 10, 1 / 2] = (Inr [0, 3, 1, 2], [])
   \<and> length [0, 3, 1, 2 :: nat] = num_cities demo_engine
   \<and> set [0, 3, 1, 2] = {0..<num_cities demo_engine}
   \<and> distinct [0, 3, 1, 2 :: nat]
   \<and> [0, 3, 1, 2] ! 0 = (0 :: nat)
   \<and> [0, 3, 1, 2] ! (num_cities demo_engine - 1) = (2 :: nat)"
proof -
  have "(0::nat) < num_cities demo_engine" "(2::nat) < num_cities demo_engine" "(0::nat) \<noteq> 2"
    by (simp_all add: demo_fields)
  from construct_solution_permutation[OF draws_choice_sound this demo_construct] demo_construct
  show ?thesis by simp
qed

lemma loop_state_inv:
  assumes "loop_state choice e s t rng0 st"
    and "choice_sound choice" "s < num_cities e" "t < num_cities e" "s \<noteq> t"
  shows "tour_inv (num_cities e) s t (fst st) (fst (snd st))"
  using assms(1)
proof (induction rule: loop_state.induct)
  case entry
  then show ?case using assms(3,5) by (simp add: tour_inv_entry)
next
  case (iteration tour visited current_city rng next_city rng')
  from iteration.IH have inv: "tour_inv (num_cities e) s t tour visited" by simp
  from candidates_nonempty[OF inv assms(4) iteration.hyps(2)]
    select_next_city_result[OF assms(2) iteration.hyps(3)]
  have "next_city \<in> set (candidates (num_cities e) visited t)" by blast
  from tour_inv_step[OF inv this] show ?case by simp
qed

lemma loop_state_on_path:
  "loop_state choice e s t rng0 st \<Longrightarrow>
   (case st of (tour, visited, current_city, rng) \<Rightarrow>
      construct_loop choice e t tour visited current_city rng)
   = construct_loop choice e t [s] {s} s rng0"
proof (induction rule: loop_state.induct)
  case entry
  show ?case by simp
next
  case (iteration tour visited current_city rng next_city rng')
  have "construct_loop choice e t tour visited current_city rng =
        construct_loop choice e t (tour @ [next_city]) (insert next_city visited) next_city rng'"
    using iteration.hyps(2,3) by (subst construct_loop.simps) simp
  with iteration.IH show ?case by simp
qed

text \<open>
  Claim C10. For valid indices \<open>start \<noteq> end\<close> below N: at every call of
  \<open>select_next_city\<close> made in the loop of \<open>construct_solution\<close> the candidate set is
  not empty, so the list \<open>probabilities\<close> is not empty and the branch that returns the
  end city is not taken, and the end city is not in the tour built so far; in the tour
  that is returned the end city stands in the last position and nowhere else.
\<close>

theorem end_city_only_appended_last:
  assumes "choice_sound choice"
    and "start_city < num_cities e" and "end_city < num_cities e" and "start_city \<noteq> end_city"
  shows "(\<forall>tour visited current_city rng.
            loop_state choice e start_city end_city rng0 (tour, visited, current_city, rng)
            \<and> int (length tour) < int (num_cities e) - 1 \<longrightarrow>
              candidates (num_cities e) visited end_city \<noteq> []
              \<and> (\<forall>ps. probabilities_loop e current_city visited end_city [0..<num_cities e] [] = Inr ps
                     \<longrightarrow> ps \<noteq> [])
              \<and> end_city \<notin> set tour)
         \<and> (\<forall>tour rng'. construct_solution choice e start_city end_city rng0 = (Inr tour, rng') \<longrightarrow>
              last tour = end_city \<and> end_city \<notin> set (butlast tour)
              \<and> count_list tour end_city = 1)"
proof (intro conjI allI impI)
  fix tour visited current_city rng
  assume h: "loop_state choice e start_city end_city rng0 (tour, visited, current_city, rng)
             \<and> int (length tour) < int (num_cities e) - 1"
  from loop_state_inv[OF conjunct1[OF h] assms]
  have inv: "tour_inv (num_cities e) start_city end_city tour visited" by simp
  from candidates_nonempty[OF inv assms(3) conjunct2[OF h]]
  show ne: "candidates (num_cities e) visited end_city \<noteq> []" .
  show "end_city \<notin> set tour" using inv by (simp add: tour_inv_def)
  fix ps
  assume "probabilities_loop e current_city visited end_city [0..<num_cities e] [] = Inr ps"
  from probabilities_loop_cities[OF this] ne show "ps \<noteq> []"
    by (auto simp: candidates_def)
next
  fix tour rng'
  assume "construct_solution choice e start_city end_city rng0 = (Inr tour, rng')"
  from construct_solution_shape[OF assms this] obtain body where
    tour: "tour = body @ [end_city]" and
    inv: "tour_inv (num_cities e) start_city end_city body (set body)"
    by blast
  from inv have notin: "end_city \<notin> set body" by (simp add: tour_inv_def)
  show "last tour = end_city" using tour by simp
  show "end_city \<notin> set (butlast tour)" using tour notin by simp
  show "count_list tour end_city = 1" using tour notin by (simp add: count_list_0_iff)
qed

theorem end_city_only_appended_last_witness:
  "loop_state draws_choice demo_engine 0 2 [9 / 10, 1 / 2] ([0, 3], {3, 0}, 3, [1 / 2])
   \<and> int (length [0, 3 :: nat]) < int (num_cities demo_engine) - 1
   \<and> candidates (num_cities demo_engine) {3, 0} 2 = [1]
   \<and> 2 \<notin> set [0, 3 :: nat]
   \<and> construct_solution draws_choice demo_engine 0 2 [9 / 10, 1 / 2] = (Inr [0, 3, 1, 2], [])
   \<and> last [0, 3, 1, 2 :: nat] = 2 \<and> count_list [0, 3, 1, 2 :: nat] 2 = 1"
proof -
  have b: "(0::nat) < num_cities demo_engine" "(2::nat) < num_cities demo_engine" "(0::nat) \<noteq> 2"
    by (simp_all add: demo_fields)
  have len0: "int (length [0 :: nat]) < int (num_cities demo_engine) - 1"
    by (simp add: demo_fields)
  have st: "loop_state draws_choice demo_engine 0 2 [9 / 10, 1 / 2] ([0, 3], {3, 0}, 3, [1 / 2])"
    using loop_state.iteration[OF loop_state.entry len0 demo_select_0] by simp
  have len: "int (length [0, 3 :: nat]) < int (num_cities demo_engine) - 1"
    by (simp add: demo_fields)
  have cs: "candidates (num_cities demo_engine) {3, 0} 2 = [1]"
    by (simp add: candidates_def demo_fields upt_conv_Cons)
  from end_city_only_appended_last[OF draws_choice_sound b, of "[9 / 10, 1 / 2]"]
    st len demo_construct
  have "candidates (num_cities demo_engine) {3, 0} 2 \<noteq> [] \<and> 2 \<notin> set [0, 3 :: nat]
        \<and> last [0, 3, 1, 2 :: nat] = 2 \<and> count_list [0, 3, 1, 2 :: nat] 2 = 1"
    by blast
  with st len cs demo_construct show ?thesis by simp
qed

subsection \<open>Next-city selection\<close>

lemma np_power_pos: "0 < x \<Longrightarrow> np_power x a = Some (x powr a)"
  by (simp add: np_power_def)

lemma inverse_power_pos: "0 < d \<Longrightarrow> inverse_power d b = Some ((1 / d) powr b)"
  by (simp add: inverse_power_def np_power_pos)

lemma probabilities_loop_weights:
  assumes "\<forall>c \<in> set (filter (\<lambda>city. city \<notin> vis \<and> city \<noteq> t) cs).
             readable_positive (pheromones e) cur c \<and> readable_positive (distance_matrix e) cur c"
  shows "probabilities_loop e cur vis t cs acc =
           Inr (acc @ map (\<lambda>c. (c, Some (spec_weight e cur c)))
                        (filter (\<lambda>city. city \<notin> vis \<and> city \<noteq> t) cs))"
  using assms
proof (induction cs arbitrary: acc)
  case Nil
  show ?case by simp
next
  case (Cons c cs)
  show ?case
  proof (cases "c \<notin> vis \<and> c \<noteq> t")
    case True
    with Cons.prems have rp: "readable_positive (pheromones e) cur c"
      "readable_positive (distance_matrix e) cur c" by auto
    then have g: "mat_get (pheromones e) cur c = Inr (pheromones e ! cur ! c)"
      "mat_get (distance_matrix e) cur c = Inr (distance_matrix e ! cur ! c)"
      by (simp_all add: readable_positive_def mat_get_def)
    from rp have w: "np_times (np_power (pheromones e ! cur ! c) (alpha e))
                       (inverse_power (distance_matrix e ! cur ! c) (beta e))
                     = Some (spec_weight e cur c)"
      by (simp add: readable_positive_def np_power_pos inverse_power_pos np_times_def
          spec_weight_def)
    from Cons.prems have "\<forall>c \<in> set (filter (\<lambda>city. city \<notin> vis \<and> city \<noteq> t) cs).
             readable_positive (pheromones e) cur c \<and> readable_positive (distance_matrix e) cur c"
      by simp
    from Cons.IH[OF this] True g w show ?thesis by simp
  next
    case False
    with Cons.prems have "\<forall>c \<in> set (filter (\<lambda>city. city \<notin> vis \<and> city \<noteq> t) cs).
             readable_positive (pheromones e) cur c \<and> readable_positive (distance_matrix e) cur c"
      by simp
    from Cons.IH[OF this] False show ?thesis by auto
  qed
qed

lemma spec_weight_pos:
  "readable_positive (pheromones e) cur c \<Longrightarrow> readable_positive (distance_matrix e) cur c \<Longrightarrow>
   0 < spec_weight e cur c"
  by (simp add: spec_weight_def readable_positive_def)

lemma sum_list_pos_real: "xs \<noteq> [] \<Longrightarrow> \<forall>x \<in> set xs. (0::real) < x \<Longrightarrow> 0 < sum_list xs"
  by (induction xs) (auto intro: add_pos_nonneg sum_list_nonneg less_imp_le)

lemma demo_candidates:
  "candidates 4 {0} 2 = [1, 3]"
  "candidates 4 {0, Suc 0, 3} 2 = []"
  by (simp_all add: candidates_def upt_conv_Cons)

lemma demo_weights:
  "spec_weight demo_engine 0 (Suc 0) = 1" "spec_weight demo_engine 0 3 = 1 / 3"
  by (simp_all add: spec_weight_def demo_fields demo_pheromones demo_matrix_def)

text \<open>
  Claim C7. In a call of \<open>select_next_city\<close> the candidates are the unvisited cities
  other than the end city. If there is none, the call returns the end city and leaves the
  random source as it was (nothing is sampled). Otherwise it samples, with
  \<open>np.random.choice\<close>, from the candidates with the probabilities
  \<open>weight(c) / sum of the weights\<close>, where \<open>weight(c)\<close> is
  \<open>pheromones[current][c]^\<alpha> \<times> (1/distance_matrix[current][c])^\<beta>\<close>. The pheromone
  and the distance from the current city to each candidate are positive entries of the
  matrices, so that the powers are the powers of the real numbers.
\<close>

theorem select_next_city_roulette:
  assumes "\<forall>c \<in> set (candidates (num_cities e) visited end_city).
             readable_positive (pheromones e) current_city c
             \<and> readable_positive (distance_matrix e) current_city c"
  shows "(candidates (num_cities e) visited end_city = [] \<longrightarrow>
            select_next_city choice e current_city visited end_city rng = (Inr end_city, rng))
         \<and> (candidates (num_cities e) visited end_city \<noteq> [] \<longrightarrow>
            select_next_city choice e current_city visited end_city rng =
              choice rng (candidates (num_cities e) visited end_city)
                (map (\<lambda>c. spec_weight e current_city c
                            / (\<Sum>c' \<leftarrow> candidates (num_cities e) visited end_city.
                                 spec_weight e current_city c'))
                     (candidates (num_cities e) visited end_city)))"
proof -
  let ?cs = "candidates (num_cities e) visited end_city"
  from assms have "probabilities_loop e current_city visited end_city [0..<num_cities e] [] =
      Inr ([] @ map (\<lambda>c. (c, Some (spec_weight e current_city c))) ?cs)"
    unfolding candidates_def by (rule probabilities_loop_weights)
  then have pl: "probabilities_loop e current_city visited end_city [0..<num_cities e] [] =
      Inr (map (\<lambda>c. (c, Some (spec_weight e current_city c))) ?cs)" by simp
  have empty: "?cs = [] \<longrightarrow>
     select_next_city choice e current_city visited end_city rng = (Inr end_city, rng)"
    using pl by (simp add: select_next_city_def)
  have nonempty: "select_next_city choice e current_city visited end_city rng =
              choice rng ?cs (map (\<lambda>c. spec_weight e current_city c
                            / (\<Sum>c' \<leftarrow> ?cs. spec_weight e current_city c')) ?cs)"
    if ne: "?cs \<noteq> []"
  proof -
    have "\<forall>x \<in> set (map (spec_weight e current_city) ?cs). 0 < x"
      using assms by (auto intro: spec_weight_pos)
    with ne have "0 < sum_list (map (spec_weight e current_city) ?cs)"
      by (intro sum_list_pos_real) auto
    then have nz: "sum_list (map (spec_weight e current_city) ?cs) \<noteq> 0" by simp
    show ?thesis
      using pl ne nz by (auto simp: select_next_city_def Let_def comp_def)
  qed
  from empty nonempty show ?thesis by blast
qed

theorem select_next_city_roulette_witness:
  "candidates (num_cities demo_engine) {0} 2 = [1, 3]
   \<and> spec_weight demo_engine 0 1 = 1 \<and> spec_weight demo_engine 0 3 = 1 / 3
   \<and> select_next_city draws_choice demo_engine 0 {0} 2 [9 / 10, 1 / 2]
       = draws_choice [9 / 10, 1 / 2] [1, 3] [3 / 4, 1 / 4]
   \<and> candidates (num_cities demo_engine) {0, 1, 3} 2 = []
   \<and> select_next_city draws_choice demo_engine 1 {0, 1, 3} 2 [1 / 2] = (Inr 2, [1 / 2])"
proof -
  have h1: "\<forall>c \<in> set (candidates (num_cities demo_engine) {0} 2).
             readable_positive (pheromones demo_engine) 0 c
             \<and> readable_positive (distance_matrix demo_engine) 0 c"
    by (simp add: demo_fields demo_candidates readable_positive_def demo_pheromones demo_matrix_def)
  have h2: "\<forall>c \<in> set (candidates (num_cities demo_engine) {0, 1, 3} 2).
             readable_positive (pheromones demo_engine) 1 c
             \<and> readable_positive (distance_matrix demo_engine) 1 c"
    by (simp add: demo_fields demo_candidates)
  from select_next_city_roulette[OF h1, of draws_choice "[9 / 10, 1 / 2]"]
  have "select_next_city draws_choice demo_engine 0 {0} 2 [9 / 10, 1 / 2]
       = draws_choice [9 / 10, 1 / 2] [1, 3] [3 / 4, 1 / 4]"
    by (simp add: demo_fields demo_candidates demo_weights)
  moreover from select_next_city_roulette[OF h2, of draws_choice "[1 / 2]"]
  have "select_next_city draws_choice demo_engine 1 {0, 1, 3} 2 [1 / 2] = (Inr 2, [1 / 2])"
    by (simp add: demo_fields demo_candidates)
  ultimately show ?thesis by (simp add: demo_fields demo_candidates demo_weights)
qed

subsection \<open>Pheromone update\<close>

lemma square_nth: "square n m \<Longrightarrow> i < n \<Longrightarrow> length (m ! i) = n"
  by (simp add: square_def)

lemma square_length: "square n m \<Longrightarrow> length m = n"
  by (simp add: square_def)

lemma mat_add_square:
  assumes "square n m" "i < n" "j < n"
  shows "\<exists>m'. mat_add m i j v = Inr m' \<and> square n m'
           \<and> (\<forall>a < n. \<forall>b < n. m' ! a ! b = m ! a ! b + (if a = i \<and> b = j then v else 0))"
proof -
  let ?m' = "m[i := (m ! i)[j := m ! i ! j + v]]"
  from assms have len: "length m = n" "length (m ! i) = n"
    by (simp_all add: square_def)
  have "mat_add m i j v = Inr ?m'"
    using assms(2,3) len by (simp add: mat_add_def)
  moreover have "square n ?m'"
    using assms(1) len by (auto simp: square_def dest!: set_update_subset_insert[THEN subsetD])
  moreover have "\<forall>a < n. \<forall>b < n. ?m' ! a ! b = m ! a ! b + (if a = i \<and> b = j then v else 0)"
    using len assms(2,3) by (auto simp: nth_list_update)
  ultimately show ?thesis by blast
qed


lemma edge_deposits_Cons:
  "edge_deposits (a # b # rest) dep i j =
     (if a = i \<and> b = j then dep else 0) + (if b = i \<and> a = j then dep else 0)
     + edge_deposits (b # rest) dep i j"
  by (simp add: edge_deposits_def sum.lessThan_Suc_shift del: sum.lessThan_Suc)

lemma edge_deposits_short [simp]:
  "edge_deposits [] dep i j = 0" "edge_deposits [a] dep i j = 0"
  by (simp_all add: edge_deposits_def)

lemma deposit_loop_square:
  "square n ph \<Longrightarrow> \<forall>c \<in> set tour. c < n \<Longrightarrow>
   \<exists>ph'. deposit_loop ph tour dep = (Inr (), ph') \<and> square n ph'
      \<and> (\<forall>i < n. \<forall>j < n. ph' ! i ! j = ph ! i ! j + edge_deposits tour dep i j)"
proof (induction ph tour dep rule: deposit_loop.induct)
  case (1 ph a b rest deposit)
  from "1.prems" have ab: "a < n" "b < n" and rest: "\<forall>c \<in> set (b # rest). c < n" by simp_all
  from mat_add_square[OF "1.prems"(1) ab, of deposit] obtain ph1 where
    m1: "mat_add ph a b deposit = Inr ph1" and sq1: "square n ph1" and
    e1: "\<forall>i < n. \<forall>j < n. ph1 ! i ! j = ph ! i ! j + (if i = a \<and> j = b then deposit else 0)"
    by blast
  from mat_add_square[OF sq1 ab(2) ab(1), of deposit] obtain ph2 where
    m2: "mat_add ph1 b a deposit = Inr ph2" and sq2: "square n ph2" and
    e2: "\<forall>i < n. \<forall>j < n. ph2 ! i ! j = ph1 ! i ! j + (if i = b \<and> j = a then deposit else 0)"
    by blast
  from "1.IH"[OF m1 m2 sq2 rest] obtain ph' where
    d: "deposit_loop ph2 (b # rest) deposit = (Inr (), ph')" and sq: "square n ph'" and
    e: "\<forall>i < n. \<forall>j < n. ph' ! i ! j = ph2 ! i ! j + edge_deposits (b # rest) deposit i j"
    by blast
  have "deposit_loop ph (a # b # rest) deposit = (Inr (), ph')"
    using m1 m2 d by simp
  moreover have "\<forall>i < n. \<forall>j < n.
      ph' ! i ! j = ph ! i ! j + edge_deposits (a # b # rest) deposit i j"
  proof (intro allI impI)
    fix i j assume ij: "i < n" "j < n"
    have "ph' ! i ! j = ph2 ! i ! j + edge_deposits (b # rest) deposit i j"
      using e ij by blast
    also have "ph2 ! i ! j = ph1 ! i ! j + (if i = b \<and> j = a then deposit else 0)"
      using e2 ij by blast
    also have "ph1 ! i ! j = ph ! i ! j + (if i = a \<and> j = b then deposit else 0)"
      using e1 ij by blast
    finally show "ph' ! i ! j = ph ! i ! j + edge_deposits (a # b # rest) deposit i j"
      by (simp add: edge_deposits_Cons eq_commute)
  qed
  ultimately show ?case using sq by blast
qed simp_all

lemma tours_loop_square:
  "square n ph \<Longrightarrow> \<forall>(tour, distance) \<in> set all_tours. distance \<noteq> 0 \<and> (\<forall>c \<in> set tour. c < n) \<Longrightarrow>
   \<exists>ph'. tours_loop q ph all_tours = (Inr (), ph') \<and> square n ph'
      \<and> (\<forall>i < n. \<forall>j < n. ph' ! i ! j =
            ph ! i ! j + (\<Sum>(tour, distance) \<leftarrow> all_tours. edge_deposits tour (q / distance) i j))"
proof (induction all_tours arbitrary: ph)
  case Nil
  then show ?case by simp
next
  case (Cons td all_tours)
  obtain tour distance where td: "td = (tour, distance)" by (cases td)
  from Cons.prems(2) td have nz: "distance \<noteq> 0" and tr: "\<forall>c \<in> set tour. c < n" and
    rest: "\<forall>(tour, distance) \<in> set all_tours. distance \<noteq> 0 \<and> (\<forall>c \<in> set tour. c < n)"
    by auto
  from deposit_loop_square[OF Cons.prems(1) tr, of "q / distance"] obtain ph1 where
    d: "deposit_loop ph tour (q / distance) = (Inr (), ph1)" and sq1: "square n ph1" and
    e1: "\<forall>i < n. \<forall>j < n. ph1 ! i ! j = ph ! i ! j + edge_deposits tour (q / distance) i j"
    by blast
  from Cons.IH[OF sq1 rest] obtain ph' where
    t: "tours_loop q ph1 all_tours = (Inr (), ph')" and sq: "square n ph'" and
    e: "\<forall>i < n. \<forall>j < n. ph' ! i ! j =
            ph1 ! i ! j + (\<Sum>(tour, distance) \<leftarrow> all_tours. edge_deposits tour (q / distance) i j)"
    by blast
  have "tours_loop q ph (td # all_tours) = (Inr (), ph')"
    using td nz d t by (simp add: np_divide_def)
  moreover have "\<forall>i < n. \<forall>j < n. ph' ! i ! j =
            ph ! i ! j + (\<Sum>(tour, distance) \<leftarrow> td # all_tours. edge_deposits tour (q / distance) i j)"
    using e e1 td by simp
  ultimately show ?case using sq by blast
qed

lemma evaporate_square:
  "square n ph \<Longrightarrow> square n (evaporate rho ph)
     \<and> (\<forall>i < n. \<forall>j < n. evaporate rho ph ! i ! j = ph ! i ! j * (1 - rho))"
  by (auto simp: square_def evaporate_def)

lemma demo_ants: "num_ants demo_engine = 2" "evaporation_rate demo_engine = 1 / 2" "Q demo_engine = 100"
  "best_distance demo_engine = PosInf" "history demo_engine = []" "best_tour demo_engine = None"
  by (simp_all add: demo_engine_def AntColonyOptimization_def)

lemma demo_square: "square 4 (pheromones demo_engine)"
  by (simp add: square_def demo_pheromones)

lemma demo_spec_pheromone:
  "spec_pheromone demo_engine [([0, 1, 3, 2], 12)] 0 1 = 53 / 6"
  "spec_pheromone demo_engine [([0, 1, 3, 2], 12)] 1 0 = 53 / 6"
  "spec_pheromone demo_engine [([0, 1, 3, 2], 12)] 0 2 = 1 / 2"
  by (simp_all add: spec_pheromone_def edge_deposits_def demo_pheromones demo_ants)

text \<open>
  Claim C6. For a list of (tour, distance) pairs with strictly positive distances (the
  tours being lists of city indices, the pheromone matrix N \<times> N),
  \<open>update_pheromones\<close> returns normally and changes nothing but the pheromone matrix,
  whose entry \<open>(i, j)\<close> becomes the old entry times \<open>1 - \<rho>\<close> plus, for each
  (tour, distance) pair and each consecutive pair \<open>(a, b)\<close> of its tour, the deposit
  \<open>Q / distance\<close> if \<open>(a, b) = (i, j)\<close> and again if \<open>(b, a) = (i, j)\<close>.
\<close>

theorem update_pheromones_evaporate_then_deposit:
  assumes "square n (pheromones e)"
    and "\<forall>(tour, distance) \<in> set all_tours. 0 < distance \<and> (\<forall>c \<in> set tour. c < n)"
  shows "\<exists>ph'. update_pheromones e all_tours = (Inr (), e\<lparr>pheromones := ph'\<rparr>)
           \<and> square n ph'
           \<and> (\<forall>i < n. \<forall>j < n. ph' ! i ! j = spec_pheromone e all_tours i j)"
proof -
  from evaporate_square[OF assms(1), of "evaporation_rate e"]
  have sq0: "square n (evaporate (evaporation_rate e) (pheromones e))" and
    e0: "\<forall>i < n. \<forall>j < n. evaporate (evaporation_rate e) (pheromones e) ! i ! j
           = pheromones e ! i ! j * (1 - evaporation_rate e)"
    by blast+
  from assms(2) have "\<forall>(tour, distance) \<in> set all_tours. distance \<noteq> 0 \<and> (\<forall>c \<in> set tour. c < n)"
    by fastforce
  from tours_loop_square[OF sq0 this, of "Q e"] obtain ph' where
    t: "tours_loop (Q e) (evaporate (evaporation_rate e) (pheromones e)) all_tours = (Inr (), ph')"
    and sq: "square n ph'" and
    e: "\<forall>i < n. \<forall>j < n. ph' ! i ! j =
            evaporate (evaporation_rate e) (pheromones e) ! i ! j
            + (\<Sum>(tour, distance) \<leftarrow> all_tours. edge_deposits tour (Q e / distance) i j)"
    by blast
  have "update_pheromones e all_tours = (Inr (), e\<lparr>pheromones := ph'\<rparr>)"
    using t by (simp add: update_pheromones_def)
  moreover have "\<forall>i < n. \<forall>j < n. ph' ! i ! j = spec_pheromone e all_tours i j"
    using e e0 by (simp add: spec_pheromone_def)
  ultimately show ?thesis using sq by blast
qed

theorem update_pheromones_evaporate_then_deposit_witness:
  "square 4 (pheromones demo_engine)
   \<and> fst (update_pheromones demo_engine [([0, 1, 3, 2], 12)]) = Inr ()
   \<and> pheromones (snd (update_pheromones demo_engine [([0, 1, 3, 2], 12)])) ! 0 ! 1 = 53 / 6
   \<and> pheromones (snd (update_pheromones demo_engine [([0, 1, 3, 2], 12)])) ! 1 ! 0 = 53 / 6
   \<and> pheromones (snd (update_pheromones demo_engine [([0, 1, 3, 2], 12)])) ! 0 ! 2 = 1 / 2
   \<and> snd (update_pheromones demo_engine [([0, 1, 3, 2], 12)])
       = demo_engine\<lparr>pheromones := pheromones (snd (update_pheromones demo_engine [([0, 1, 3, 2], 12)]))\<rparr>"
proof -
  have h: "\<forall>(tour, distance) \<in> set [([0, 1, 3, 2 :: nat], 12 :: real)].
             0 < distance \<and> (\<forall>c \<in> set tour. c < 4)"
    by simp
  from update_pheromones_evaporate_then_deposit[OF demo_square h] obtain ph' where
    u: "update_pheromones demo_engine [([0, 1, 3, 2], 12)] = (Inr (), demo_engine\<lparr>pheromones := ph'\<rparr>)"
    and e: "\<forall>i < 4. \<forall>j < 4. ph' ! i ! j = spec_pheromone demo_engine [([0, 1, 3, 2], 12)] i j"
    by blast
  have "ph' ! 0 ! 1 = 53 / 6" "ph' ! 1 ! 0 = 53 / 6" "ph' ! 0 ! 2 = 1 / 2"
    using e demo_spec_pheromone by simp_all
  with u demo_square show ?thesis by simp
qed

subsection \<open>Tour construction does not read the best tour\<close>

lemma probabilities_loop_same_colony:
  "same_colony e e' \<Longrightarrow>
   probabilities_loop e' cur vis t cs acc = probabilities_loop e cur vis t cs acc"
  by (induction cs arbitrary: acc) (auto simp: same_colony_def split: sum.splits)

lemma select_next_city_same_colony:
  "same_colony e e' \<Longrightarrow>
   select_next_city choice e' cur vis t rng = select_next_city choice e cur vis t rng"
  by (simp add: select_next_city_def probabilities_loop_same_colony) (simp add: same_colony_def)

lemma construct_loop_same_colony:
  "same_colony e e' \<Longrightarrow>
   construct_loop choice e' t tour vis cur rng = construct_loop choice e t tour vis cur rng"
proof (induction choice e t tour vis cur rng rule: construct_loop.induct)
  case (1 choice e end_city tour visited current_city rng)
  have n: "num_cities e' = num_cities e" using "1.prems" by (simp add: same_colony_def)
  show ?case
  proof (cases "int (length tour) < int (num_cities e) - 1")
    case True
    show ?thesis
    proof (cases "select_next_city choice e current_city visited end_city rng")
      case (Pair r rng')
      show ?thesis
      proof (cases r)
        case (Inl err)
        with Pair True n "1.prems" show ?thesis
          by (simp add: construct_loop.simps[of choice e] construct_loop.simps[of choice e']
              select_next_city_same_colony)
      next
        case (Inr c)
        from "1.IH"[OF True Pair[symmetric] Inr "1.prems"] Pair Inr True n "1.prems"
        show ?thesis
          by (simp add: construct_loop.simps[of choice e end_city tour]
              construct_loop.simps[of choice e' end_city tour] select_next_city_same_colony)
      qed
    qed
  next
    case False
    with n show ?thesis
      by (simp add: construct_loop.simps[of choice e] construct_loop.simps[of choice e'])
  qed
qed

lemma construct_solution_same_colony:
  "same_colony e e' \<Longrightarrow>
   construct_solution choice e' s t rng = construct_solution choice e s t rng"
  by (simp add: construct_solution_def construct_loop_same_colony)

lemma calculate_distance_same_colony:
  "same_colony e e' \<Longrightarrow> calculate_distance e' tour = calculate_distance e tour"
  by (simp add: calculate_distance_def same_colony_def)

lemma same_colony_best:
  "same_colony e (e\<lparr>best_distance := b, best_tour := bt\<rparr>)"
  by (simp add: same_colony_def)

lemma construct_solution_best:
  "construct_solution choice (e\<lparr>best_distance := b, best_tour := bt\<rparr>) s t rng
     = construct_solution choice e s t rng"
  by (rule construct_solution_same_colony[OF same_colony_best])

lemma calculate_distance_best:
  "calculate_distance (e\<lparr>best_distance := b, best_tour := bt\<rparr>) tour = calculate_distance e tour"
  by (rule calculate_distance_same_colony[OF same_colony_best])

subsection \<open>Rejected calls of run_iteration\<close>

lemma demo_select_a:
  "select_next_city draws_choice demo_engine 0 {0} 0 (0 # rest) = (Inr 1, rest)"
  by (simp add: select_next_city_def demo_fields demo_pheromones demo_matrix_def
      mat_get_def np_power_def inverse_power_def np_times_def draws_choice_def Let_def
      upt_conv_Cons)

lemma demo_select_b:
  "select_next_city draws_choice demo_engine (Suc 0) {Suc 0, 0} 0 (0 # rest) = (Inr 2, rest)"
  by (simp add: select_next_city_def demo_fields demo_pheromones demo_matrix_def
      mat_get_def np_power_def inverse_power_def np_times_def draws_choice_def Let_def
      upt_conv_Cons)

lemma demo_construct_same:
  "construct_solution draws_choice demo_engine 0 0 (0 # 0 # rest) = (Inr [0, 1, 2, 0], rest)"
  by (simp add: construct_solution_def construct_loop.simps demo_select_a demo_select_b
      demo_fields)

lemma demo_distance_same: "calculate_distance demo_engine [0, Suc 0, 2, 0] = Inr 7"
  by (simp add: calculate_distance_def demo_fields demo_matrix_def mat_get_def)

lemma demo_ants_loop_same:
  "ants_loop draws_choice (Suc (Suc 0)) 0 0 demo_engine [0, 0, 0, 0] [] =
     (Inr [([0, Suc 0, 2, 0], 7), ([0, Suc 0, 2, 0], 7)],
      demo_engine\<lparr>best_distance := Finite 7, best_tour := Some [0, Suc 0, 2, 0]\<rparr>, [])"
  by (simp add: demo_construct_same demo_distance_same demo_ants
      construct_solution_best calculate_distance_best)

lemma demo_update_same:
  "\<exists>ph'. update_pheromones
     (demo_engine\<lparr>best_distance := Finite 7, best_tour := Some [0, Suc 0, 2, 0]\<rparr>)
     [([0, Suc 0, 2, 0], 7), ([0, Suc 0, 2, 0], 7)]
   = (Inr (), demo_engine\<lparr>best_distance := Finite 7, best_tour := Some [0, Suc 0, 2, 0],
                          pheromones := ph'\<rparr>)"
proof -
  have sq: "square 4 (evaporate (1 / 2) (pheromones demo_engine))"
    using evaporate_square[OF demo_square] by blast
  have "\<forall>(tour, distance) \<in> set [([0, Suc 0, 2, 0 :: nat], 7 :: real), ([0, Suc 0, 2, 0], 7)].
          distance \<noteq> 0 \<and> (\<forall>c \<in> set tour. c < 4)"
    by simp
  from tours_loop_square[OF sq this, of 100] show ?thesis
    by (auto simp: update_pheromones_def demo_ants)
qed

text \<open>
  Claim C4 says that a call of \<open>run_iteration\<close> with \<open>start == end\<close> fails with
  \<open>InvalidInput\<close> and leaves the engine state unchanged. \<open>run_iteration\<close> checks
  nothing: with \<open>start = end = 0\<close> on the four cities, both ants build the tour
  \<open>[0, 1, 2, 0]\<close> of length 7, the call returns it as the best tour, and the history,
  empty before, holds one entry.
\<close>

theorem run_iteration_same_start_end_counterexample:
  "fst (run_iteration draws_choice demo_engine 0 0 [0, 0, 0, 0])
     = Inr (Some [0, 1, 2, 0], Finite 7, Some 7)
   \<and> history (fst (snd (run_iteration draws_choice demo_engine 0 0 [0, 0, 0, 0]))) = [Finite 7]
   \<and> history demo_engine = []"
proof -
  from demo_update_same obtain ph' where upd:
    "update_pheromones
       (demo_engine\<lparr>best_distance := Finite 7, best_tour := Some [0, Suc 0, 2, 0]\<rparr>)
       [([0, Suc 0, 2, 0], 7), ([0, Suc 0, 2, 0], 7)]
     = (Inr (), demo_engine\<lparr>best_distance := Finite 7, best_tour := Some [0, Suc 0, 2, 0],
                            pheromones := ph'\<rparr>)"
    by blast
  have n: "nat (num_ants demo_engine) = Suc (Suc 0)"
    by (simp add: demo_ants)
  have "run_iteration draws_choice demo_engine 0 0 [0, 0, 0, 0] =
          (Inr (Some [0, Suc 0, 2, 0], Finite 7, Some 7),
           demo_engine\<lparr>best_distance := Finite 7, best_tour := Some [0, Suc 0, 2, 0],
                        pheromones := ph', history := [Finite 7]\<rparr>, [])"
    unfolding run_iteration_def n demo_ants_loop_same
    by (simp add: upd np_mean_def demo_ants)
  then show ?thesis by (simp add: demo_ants)
qed

lemma mat_get_error: "mat_get m i j = Inl err \<Longrightarrow> err = IndexError"
  by (simp add: mat_get_def split: if_splits)

lemma probabilities_loop_bad_row:
  "length (pheromones e) \<le> cur \<Longrightarrow> filter (\<lambda>city. city \<notin> vis \<and> city \<noteq> t) cs \<noteq> [] \<Longrightarrow>
   probabilities_loop e cur vis t cs acc = Inl IndexError"
  by (induction cs arbitrary: acc) (auto simp: mat_get_def)

lemma select_next_city_bad_start:
  assumes "length (pheromones e) = num_cities e" "num_cities e \<le> s" "3 \<le> num_cities e"
  shows "select_next_city choice e s {s} t rng = (Inl IndexError, rng)"
proof -
  define c :: nat where "c = (if t = 0 then 1 else 0)"
  have "c \<in> set [0..<num_cities e]" "c \<notin> {s}" "c \<noteq> t"
    using assms(2,3) by (auto simp: c_def)
  then have "c \<in> set (filter (\<lambda>city. city \<notin> {s} \<and> city \<noteq> t) [0..<num_cities e])"
    by simp
  then have "filter (\<lambda>city. city \<notin> {s} \<and> city \<noteq> t) [0..<num_cities e] \<noteq> []"
    by (metis empty_iff list.set(1))
  from probabilities_loop_bad_row[OF _ this, of e s "[]"] assms(1,2)
  show ?thesis by (simp add: select_next_city_def)
qed

lemma construct_solution_bad_start:
  assumes "length (pheromones e) = num_cities e" "num_cities e \<le> s"
  shows "construct_solution choice e s t rng =
           (if 3 \<le> num_cities e then (Inl IndexError, rng) else (Inr [s, t], rng))"
proof (cases "3 \<le> num_cities e")
  case True
  then have "int (length [s]) < int (num_cities e) - 1" by simp
  with select_next_city_bad_start[OF assms True, of choice t rng] True show ?thesis
    by (simp add: construct_solution_def construct_loop.simps[of choice e t "[s]"])
next
  case False
  then have "\<not> int (length [s]) < int (num_cities e) - 1" by simp
  with False show ?thesis
    by (simp add: construct_solution_def construct_loop.simps[of choice e t "[s]"])
qed

lemma calculate_distance_loop_last_bad:
  "square n dm \<Longrightarrow> body \<noteq> [] \<Longrightarrow> n \<le> t \<Longrightarrow>
   calculate_distance_loop dm (body @ [t]) acc = Inl IndexError"
proof (induction body arbitrary: acc)
  case Nil
  then show ?case by simp
next
  case (Cons x body)
  show ?case
  proof (cases body)
    case Nil
    with Cons.prems show ?thesis
      by (auto simp: mat_get_def square_def)
  next
    case (Cons y rest)
    with Cons.IH[OF Cons.prems(1) _ Cons.prems(3)] show ?thesis
      by (auto split: sum.splits dest: mat_get_error)
  qed
qed

lemma construct_loop_nonempty:
  "construct_loop choice e t tour vis cur rng = (Inr tour', rng') \<Longrightarrow> tour \<noteq> [] \<Longrightarrow> tour' \<noteq> []"
proof (induction choice e t tour vis cur rng rule: construct_loop.induct)
  case (1 choice e end_city tour visited current_city rng)
  show ?case
  proof (cases "int (length tour) < int (num_cities e) - 1")
    case True
    from "1.prems"(1) True obtain c r where
      sel: "select_next_city choice e current_city visited end_city rng = (Inr c, r)" and
      rec: "construct_loop choice e end_city (tour @ [c]) (insert c visited) c r = (Inr tour', rng')"
      by (subst (asm) construct_loop.simps) (auto split: prod.splits sum.splits)
    from "1.IH"[OF True sel[symmetric] refl rec] show ?thesis by simp
  next
    case False
    with "1.prems" show ?thesis
      by (subst (asm) construct_loop.simps) simp
  qed
qed

lemma ants_loop_first_fails:
  "construct_solution choice e s t rng = (Inl err, rng') \<Longrightarrow>
   ants_loop choice (Suc n) s t e rng acc = (Inl err, e, rng')"
  "construct_solution choice e s t rng = (Inr tour, rng') \<Longrightarrow>
   calculate_distance e tour = Inl err \<Longrightarrow>
   ants_loop choice (Suc n) s t e rng acc = (Inl err, e, rng')"
  by simp_all

text \<open>
  Claim C4, amended. On an engine with N \<times> N matrices and at least one ant, a call of
  \<open>run_iteration\<close> with a start index or an end index \<open>\<ge> N\<close> raises an exception
  and leaves the engine state as it was: an \<open>IndexError\<close> from the first matrix read
  out of range, or the exception that the tour construction of the first ant raised.
  With a start index \<open>\<ge> N\<close> it is the \<open>IndexError\<close>, raised before anything is
  drawn from the random source.
\<close>

theorem run_iteration_index_out_of_range:
  assumes "square (num_cities e) (distance_matrix e)" and "square (num_cities e) (pheromones e)"
    and "1 \<le> num_ants e"
    and "num_cities e \<le> start_city \<or> num_cities e \<le> end_city"
  shows "\<exists>err rng'. run_iteration choice e start_city end_city rng = (Inl err, e, rng')
           \<and> (err = IndexError
                \<or> (\<exists>r. construct_solution choice e start_city end_city rng = (Inl err, r)))
           \<and> (num_cities e \<le> start_city \<longrightarrow> err = IndexError \<and> rng' = rng)"
proof -
  from assms(3) obtain n where n: "nat (num_ants e) = Suc n"
    by (cases "nat (num_ants e)") auto
  have lenp: "length (pheromones e) = num_cities e" and lend: "length (distance_matrix e) = num_cities e"
    using assms(1,2) by (simp_all add: square_def)
  have run: "run_iteration choice e start_city end_city rng = (Inl err, e, r)"
    if "ants_loop choice (Suc n) start_city end_city e rng [] = (Inl err, e, r)" for err r
    using that n by (simp add: run_iteration_def)
  show ?thesis
  proof (cases "num_cities e \<le> start_city")
    case True
    have "ants_loop choice (Suc n) start_city end_city e rng [] = (Inl IndexError, e, rng)"
    proof (cases "3 \<le> num_cities e")
      case three: True
      with construct_solution_bad_start[OF lenp True, of choice end_city rng]
      show ?thesis by (simp add: ants_loop_first_fails(1))
    next
      case False
      with construct_solution_bad_start[OF lenp True, of choice end_city rng]
      have c: "construct_solution choice e start_city end_city rng = (Inr [start_city, end_city], rng)"
        by simp
      have "calculate_distance e [start_city, end_city] = Inl IndexError"
        using True lend by (simp add: calculate_distance_def mat_get_def)
      from ants_loop_first_fails(2)[OF c this] show ?thesis .
    qed
    from run[OF this] show ?thesis by blast
  next
    case False
    with assms(4) have t: "num_cities e \<le> end_city" by simp
    obtain res r where c: "construct_solution choice e start_city end_city rng = (res, r)"
      by (cases "construct_solution choice e start_city end_city rng")
    show ?thesis
    proof (cases res)
      case (Inl err)
      from ants_loop_first_fails(1)[OF c[unfolded Inl]]
      have "ants_loop choice (Suc n) start_city end_city e rng [] = (Inl err, e, r)" .
      from run[OF this] c Inl False show ?thesis by blast
    next
      case (Inr tour)
      from c Inr obtain body where
        loop: "construct_loop choice e end_city [start_city] {start_city} start_city rng = (Inr body, r)"
        and tour: "tour = body @ [end_city]"
        by (auto simp: construct_solution_def split: prod.splits sum.splits)
      from construct_loop_nonempty[OF loop] have "body \<noteq> []" by simp
      from calculate_distance_loop_last_bad[OF assms(1) this t, of 0] tour
      have "calculate_distance e tour = Inl IndexError"
        by (simp add: calculate_distance_def)
      from ants_loop_first_fails(2)[OF c[unfolded Inr] this]
      have "ants_loop choice (Suc n) start_city end_city e rng [] = (Inl IndexError, e, r)" .
      from run[OF this] False show ?thesis by blast
    qed
  qed
qed

theorem run_iteration_index_out_of_range_witness:
  "square (num_cities demo_engine) (distance_matrix demo_engine)
   \<and> square (num_cities demo_engine) (pheromones demo_engine)
   \<and> 1 \<le> num_ants demo_engine
   \<and> run_iteration draws_choice demo_engine 9 2 [0, 0] = (Inl IndexError, demo_engine, [0, 0])"
proof -
  have a: "square (num_cities demo_engine) (distance_matrix demo_engine)"
    by (simp add: demo_fields demo_matrix_def square_def)
  have b: "square (num_cities demo_engine) (pheromones demo_engine)"
    using demo_square by (simp add: demo_fields)
  have c: "1 \<le> num_ants demo_engine" by (simp add: demo_ants)
  have d: "num_cities demo_engine \<le> 9 \<or> num_cities demo_engine \<le> 2"
    by (simp add: demo_fields)
  from run_iteration_index_out_of_range[OF a b c d, of draws_choice "[0, 0]"]
  have "run_iteration draws_choice demo_engine 9 2 [0, 0] = (Inl IndexError, demo_engine, [0, 0])"
    by (auto simp: demo_fields)
  with a b c show ?thesis by blast
qed

subsection \<open>Symmetry and sign of the pheromone matrix\<close>

lemma mat_add_out_of_range:
  "square n m \<Longrightarrow> \<not> (i < n \<and> j < n) \<Longrightarrow> mat_add m i j v = Inl IndexError"
  by (auto simp: mat_add_def square_def)

lemma deposit_pair_commute:
  "(if i = a \<and> j = b then d else 0) + (if i = b \<and> j = a then d else 0)
   = (if j = a \<and> i = b then d else (0::real)) + (if j = b \<and> i = a then d else 0)"
proof -
  have c: "(j = a \<and> i = b) = (i = b \<and> j = a)" "(j = b \<and> i = a) = (i = a \<and> j = b)"
    by blast+
  show ?thesis unfolding c by (rule add.commute)
qed

lemma deposit_loop_symmetric:
  "symmetric_nonneg n ph \<Longrightarrow> 0 \<le> dep \<Longrightarrow> symmetric_nonneg n (snd (deposit_loop ph tour dep))"
proof (induction ph tour dep rule: deposit_loop.induct)
  case (1 ph a b rest deposit)
  from "1.prems"(1) have sq: "square n ph" by (simp add: symmetric_nonneg_def)
  show ?case
  proof (cases "a < n \<and> b < n")
    case True
    then have ab: "a < n" "b < n" by simp_all
    from mat_add_square[OF sq ab, of deposit] obtain ph1 where
      m1: "mat_add ph a b deposit = Inr ph1" and sq1: "square n ph1" and
      e1: "\<forall>i < n. \<forall>j < n. ph1 ! i ! j = ph ! i ! j + (if i = a \<and> j = b then deposit else 0)"
      by blast
    from mat_add_square[OF sq1 ab(2) ab(1), of deposit] obtain ph2 where
      m2: "mat_add ph1 b a deposit = Inr ph2" and sq2: "square n ph2" and
      e2: "\<forall>i < n. \<forall>j < n. ph2 ! i ! j = ph1 ! i ! j + (if i = b \<and> j = a then deposit else 0)"
      by blast
    have "symmetric_nonneg n ph2"
      unfolding symmetric_nonneg_def
    proof (intro conjI allI impI)
      show "square n ph2" by (rule sq2)
    next
      fix i j assume ij: "i < n" "j < n"
      define x where "x = (if i = a \<and> j = b then deposit else 0)
                 + (if i = b \<and> j = a then deposit else 0)"
      have x0: "0 \<le> x" using "1.prems"(2) by (simp add: x_def)
      have x': "x = (if j = a \<and> i = b then deposit else 0)
                 + (if j = b \<and> i = a then deposit else 0)"
        unfolding x_def by (rule deposit_pair_commute)
      have "ph2 ! i ! j = ph1 ! i ! j + (if i = b \<and> j = a then deposit else 0)"
        using e2 ij by blast
      also have "ph1 ! i ! j = ph ! i ! j + (if i = a \<and> j = b then deposit else 0)"
        using e1 ij by blast
      finally have v1: "ph2 ! i ! j = ph ! i ! j + x"
        unfolding x_def by (simp only: add.assoc)
      have "ph2 ! j ! i = ph1 ! j ! i + (if j = b \<and> i = a then deposit else 0)"
        using e2 ij by blast
      also have "ph1 ! j ! i = ph ! j ! i + (if j = a \<and> i = b then deposit else 0)"
        using e1 ij by blast
      finally have v2: "ph2 ! j ! i = ph ! j ! i + x"
        unfolding x' by (simp only: add.assoc)
      from "1.prems"(1) ij have s: "ph ! i ! j = ph ! j ! i" "0 \<le> ph ! i ! j"
        by (simp_all add: symmetric_nonneg_def)
      show "ph2 ! i ! j = ph2 ! j ! i" by (simp only: v1 v2 s(1))
      show "0 \<le> ph2 ! i ! j" using v1 s(2) x0 by linarith
    qed
    from "1.IH"[OF m1 m2 this "1.prems"(2)] m1 m2 show ?thesis by simp
  next
    case False
    from mat_add_out_of_range[OF sq False] "1.prems"(1) show ?thesis by simp
  qed
qed simp_all

lemma tours_loop_symmetric:
  "symmetric_nonneg n ph \<Longrightarrow> 0 \<le> q \<Longrightarrow> \<forall>(tour, distance) \<in> set all_tours. 0 < distance \<Longrightarrow>
   symmetric_nonneg n (snd (tours_loop q ph all_tours))"
proof (induction all_tours arbitrary: ph)
  case Nil
  then show ?case by simp
next
  case (Cons td all_tours)
  obtain tour distance where td: "td = (tour, distance)" by (cases td)
  with Cons.prems(3) have pos: "0 < distance" and
    rest: "\<forall>(tour, distance) \<in> set all_tours. 0 < distance" by auto
  from pos Cons.prems(2) have dep: "0 \<le> q / distance" by simp
  let ?r = "deposit_loop ph tour (q / distance)"
  from deposit_loop_symmetric[OF Cons.prems(1) dep, of tour]
  have s1: "symmetric_nonneg n (snd ?r)" .
  show ?case
  proof (cases "fst ?r")
    case (Inl err)
    then have "snd (tours_loop q ph (td # all_tours)) = snd ?r"
      using td pos by (cases ?r) (simp add: np_divide_def)
    with s1 show ?thesis by simp
  next
    case (Inr u)
    then have "snd (tours_loop q ph (td # all_tours)) = snd (tours_loop q (snd ?r) all_tours)"
      using td pos by (cases ?r) (simp add: np_divide_def)
    with Cons.IH[OF s1 Cons.prems(2) rest] show ?thesis by simp
  qed
qed

lemma evaporate_symmetric:
  "symmetric_nonneg n ph \<Longrightarrow> rho \<le> 1 \<Longrightarrow> symmetric_nonneg n (evaporate rho ph)"
  using evaporate_square[of n ph rho]
  by (auto simp: symmetric_nonneg_def intro: mult_nonneg_nonneg)

lemma update_pheromones_symmetric:
  assumes "symmetric_nonneg n (pheromones e)" "0 \<le> Q e" "evaporation_rate e \<le> 1"
    and "\<forall>(tour, distance) \<in> set all_tours. 0 < distance"
  shows "symmetric_nonneg n (pheromones (snd (update_pheromones e all_tours)))"
proof -
  obtain r ph' where t:
    "tours_loop (Q e) (evaporate (evaporation_rate e) (pheromones e)) all_tours = (r, ph')"
    by (cases "tours_loop (Q e) (evaporate (evaporation_rate e) (pheromones e)) all_tours")
  from tours_loop_symmetric[OF evaporate_symmetric[OF assms(1,3)] assms(2,4)] t
  have "symmetric_nonneg n ph'" by simp
  then show ?thesis using t by (simp add: update_pheromones_def)
qed


lemma ants_loop_engine:
  "ants_loop choice n s t e rng acc = (out, e1, rng1) \<Longrightarrow>
   \<exists>bd bt. e1 = e\<lparr>best_distance := bd, best_tour := bt\<rparr>"
proof (induction n arbitrary: e rng acc)
  case 0
  then have "e1 = e\<lparr>best_distance := best_distance e, best_tour := best_tour e\<rparr>" by simp
  then show ?case by blast
next
  case (Suc n)
  obtain res r where c: "construct_solution choice e s t rng = (res, r)"
    by (cases "construct_solution choice e s t rng")
  have same: "\<exists>bd bt. e = e\<lparr>best_distance := bd, best_tour := bt\<rparr>"
    by (rule exI[of _ "best_distance e"], rule exI[of _ "best_tour e"]) simp
  show ?case
  proof (cases res)
    case (Inl err)
    with Suc.prems c same show ?thesis by simp
  next
    case (Inr tour)
    show ?thesis
    proof (cases "calculate_distance e tour")
      case (Inl err)
      with Suc.prems c Inr same show ?thesis by simp
    next
      case d: (Inr distance)
      let ?e = "if less_best distance (best_distance e)
                then e\<lparr>best_distance := Finite distance, best_tour := Some tour\<rparr> else e"
      from Suc.prems c Inr d
      have "ants_loop choice n s t ?e r (acc @ [(tour, distance)]) = (out, e1, rng1)" by simp
      from Suc.IH[OF this] obtain bd bt where "e1 = ?e\<lparr>best_distance := bd, best_tour := bt\<rparr>"
        by blast
      then have "e1 = e\<lparr>best_distance := bd, best_tour := bt\<rparr>" by (simp split: if_splits)
      then show ?thesis by blast
    qed
  qed
qed

lemma update_pheromones_engine:
  "update_pheromones e all_tours = (r, e2) \<Longrightarrow> \<exists>ph'. e2 = e\<lparr>pheromones := ph'\<rparr>"
  by (auto simp: update_pheromones_def split: prod.splits)

lemma run_calls_symmetric:
  "symmetric_nonneg n (pheromones e) \<Longrightarrow> 0 \<le> Q e \<Longrightarrow> evaporation_rate e \<le> 1 \<Longrightarrow>
   \<forall>(tour, distance) \<in> set (tours_passed choice calls e rng). 0 < distance \<Longrightarrow>
   symmetric_nonneg n (pheromones (fst (snd (run_calls choice calls e rng))))"
proof (induction calls arbitrary: e rng)
  case Nil
  then show ?case by simp
next
  case (Cons call calls)
  obtain s t where call: "call = (s, t)" by (cases call)
  obtain out1 e1 rng1 where a: "ants_loop choice (nat (num_ants e)) s t e rng [] = (out1, e1, rng1)"
    by (cases "ants_loop choice (nat (num_ants e)) s t e rng []") auto
  from ants_loop_engine[OF a] obtain bd bt where e1: "e1 = e\<lparr>best_distance := bd, best_tour := bt\<rparr>"
    by blast
  show ?case
  proof (cases out1)
    case (Inl err)
    with a call have "run_calls choice (call # calls) e rng = (Inl err, e1, rng1)"
      by (simp add: run_iteration_def)
    with e1 Cons.prems(1) show ?thesis by simp
  next
    case (Inr all_tours)
    obtain r e2 where u: "update_pheromones e1 all_tours = (r, e2)"
      by (cases "update_pheromones e1 all_tours")
    from Cons.prems(4) call a Inr have pos: "\<forall>(tour, distance) \<in> set all_tours. 0 < distance"
      by auto
    from update_pheromones_symmetric[of n e1 all_tours] e1 Cons.prems(1,2,3) pos u
    have s2: "symmetric_nonneg n (pheromones e2)" by simp
    from update_pheromones_engine[OF u] e1 obtain ph' where
      e2: "e2 = e\<lparr>best_distance := bd, best_tour := bt, pheromones := ph'\<rparr>" by auto
    show ?thesis
    proof (cases r)
      case (Inl err)
      with a Inr u call have "run_calls choice (call # calls) e rng = (Inl err, e2, rng1)"
        by (simp add: run_iteration_def)
      with s2 show ?thesis by simp
    next
      case u': (Inr uu)
      let ?e3 = "e2\<lparr>history := history e2 @ [best_distance e2]\<rparr>"
      have ri: "run_iteration choice e s t rng =
                  (Inr (best_tour ?e3, best_distance ?e3, np_mean (map snd all_tours)), ?e3, rng1)"
        using a Inr u u' by (simp add: run_iteration_def Let_def)
      from Cons.prems(4) call a Inr u u'
      have rest: "\<forall>(tour, distance) \<in> set (tours_passed choice calls ?e3 rng1). 0 < distance"
        by auto
      have "symmetric_nonneg n (pheromones (fst (snd (run_calls choice calls ?e3 rng1))))"
        using s2 e2 Cons.prems(2,3) rest by (intro Cons.IH) simp_all
      moreover have "fst (snd (run_calls choice (call # calls) e rng))
                       = fst (snd (run_calls choice calls ?e3 rng1))"
        using ri call by (simp split: prod.splits sum.splits)
      ultimately show ?thesis by simp
    qed
  qed
qed

lemma demo_distance: "calculate_distance demo_engine [0, 3, Suc 0, 2] = Inr 12"
  by (simp add: calculate_distance_def demo_fields demo_matrix_def mat_get_def)

lemma demo_ants_loop:
  "ants_loop draws_choice (Suc (Suc 0)) 0 2 demo_engine [9 / 10, 1 / 2, 9 / 10, 1 / 2] [] =
     (Inr [([0, 3, Suc 0, 2], 12), ([0, 3, Suc 0, 2], 12)],
      demo_engine\<lparr>best_distance := Finite 12, best_tour := Some [0, 3, Suc 0, 2]\<rparr>, [])"
  by (simp add: demo_construct demo_distance demo_ants
      construct_solution_best calculate_distance_best)

lemma demo_tours_passed:
  "tours_passed draws_choice [(0, 2)] demo_engine [9 / 10, 1 / 2, 9 / 10, 1 / 2]
     = [([0, 3, Suc 0, 2], 12), ([0, 3, Suc 0, 2], 12)]"
proof -
  have n: "nat (num_ants demo_engine) = Suc (Suc 0)"
    by (simp add: demo_ants)
  show ?thesis
    unfolding tours_passed.simps n demo_ants_loop
    by (simp split: prod.splits sum.splits)
qed

text \<open>
  Claim C3. Starting from the all-ones matrix of the constructor, with a deposit factor
  \<open>Q \<ge> 0\<close> and an evaporation rate \<open>\<rho> \<le> 1\<close> (the specification's engine has
  \<open>Q > 0\<close> and \<open>0 < \<rho> < 1\<close>), and with every tour distance that is passed to the
  pheromone update strictly positive, the pheromone matrix is symmetric and has no
  negative entry after any number of calls of \<open>run_iteration\<close>, whatever the calls'
  arguments and also when the last call raised.
\<close>

theorem pheromones_stay_symmetric_nonnegative:
  assumes "0 \<le> q" and "rho \<le> 1"
    and "\<forall>(tour, distance) \<in>
            set (tours_passed choice calls (AntColonyOptimization dm ants a b rho q) rng).
          0 < distance"
  shows "symmetric_nonneg (length dm)
           (pheromones (fst (snd (run_calls choice calls
              (AntColonyOptimization dm ants a b rho q) rng))))"
proof -
  have "symmetric_nonneg (length dm) (pheromones (AntColonyOptimization dm ants a b rho q))"
    by (simp add: symmetric_nonneg_def square_def AntColonyOptimization_def)
  moreover have "0 \<le> Q (AntColonyOptimization dm ants a b rho q)"
    "evaporation_rate (AntColonyOptimization dm ants a b rho q) \<le> 1"
    using assms(1,2) by (simp_all add: AntColonyOptimization_def)
  ultimately show ?thesis using assms(3) by (rule run_calls_symmetric)
qed

theorem pheromones_stay_symmetric_nonnegative_witness:
  "(0 :: real) \<le> 100 \<and> (1 / 2 :: real) \<le> 1
   \<and> tours_passed draws_choice [(0, 2)] (AntColonyOptimization demo_matrix 2 1 1 (1 / 2) 100)
        [9 / 10, 1 / 2, 9 / 10, 1 / 2] = [([0, 3, 1, 2], 12), ([0, 3, 1, 2], 12)]
   \<and> symmetric_nonneg 4
        (pheromones (fst (snd (run_calls draws_choice [(0, 2)]
           (AntColonyOptimization demo_matrix 2 1 1 (1 / 2) 100)
           [9 / 10, 1 / 2, 9 / 10, 1 / 2]))))"
proof -
  have tp: "tours_passed draws_choice [(0, 2)] (AntColonyOptimization demo_matrix 2 1 1 (1 / 2) 100)
        [9 / 10, 1 / 2, 9 / 10, 1 / 2] = [([0, 3, Suc 0, 2], 12), ([0, 3, Suc 0, 2], 12)]"
    using demo_tours_passed by (simp only: demo_engine_def)
  have pos: "\<forall>(tour, distance) \<in>
            set (tours_passed draws_choice [(0, 2)]
                   (AntColonyOptimization demo_matrix 2 1 1 (1 / 2) 100)
                   [9 / 10, 1 / 2, 9 / 10, 1 / 2]).
          0 < distance"
    unfolding tp by simp
  have len: "length demo_matrix = 4" by (simp add: demo_matrix_def)
  from pheromones_stay_symmetric_nonnegative[OF _ _ pos]
  have "symmetric_nonneg (length demo_matrix)
        (pheromones (fst (snd (run_calls draws_choice [(0, 2)]
           (AntColonyOptimization demo_matrix 2 1 1 (1 / 2) 100)
           [9 / 10, 1 / 2, 9 / 10, 1 / 2]))))"
    by simp
  with tp len show ?thesis by simp
qed

subsection \<open>The best distance and its history\<close>

lemma float_le_refl [simp]: "float_le x x"
  by (cases x) simp_all

lemma float_le_trans: "float_le x y \<Longrightarrow> float_le y z \<Longrightarrow> float_le x z"
  by (cases x; cases y; cases z) simp_all

lemma less_best_le: "less_best d b \<Longrightarrow> float_le (Finite d) b"
  by (cases b) simp_all

lemma less_best_mono: "less_best d b \<Longrightarrow> float_le b c \<Longrightarrow> less_best d c"
  by (cases b; cases c) simp_all

lemma float_less_irrefl [simp]: "\<not> float_less x x"
  by (cases x) simp_all

lemma ants_loop_best:
  "ants_loop choice n s t e rng acc = (out, e1, rng1) \<Longrightarrow>
   \<exists>new. (\<forall>all_tours. out = Inr all_tours \<longrightarrow> all_tours = acc @ new)
     \<and> (\<forall>(tour, d) \<in> set new. calculate_distance e tour = Inr d
           \<and> (\<exists>r r'. construct_solution choice e s t r = (Inr tour, r')))
     \<and> ((best_distance e1 = best_distance e \<and> best_tour e1 = best_tour e)
        \<or> (\<exists>(tour, d) \<in> set new. less_best d (best_distance e)
               \<and> best_distance e1 = Finite d \<and> best_tour e1 = Some tour))"
proof (induction n arbitrary: e rng acc)
  case 0
  then have "(\<forall>all_tours. out = Inr all_tours \<longrightarrow> all_tours = acc @ [])
     \<and> (\<forall>(tour, d) \<in> set []. calculate_distance e tour = Inr d
           \<and> (\<exists>r r'. construct_solution choice e s t r = (Inr tour, r')))
     \<and> ((best_distance e1 = best_distance e \<and> best_tour e1 = best_tour e)
        \<or> (\<exists>(tour, d) \<in> set []. less_best d (best_distance e)
               \<and> best_distance e1 = Finite d \<and> best_tour e1 = Some tour))"
    by auto
  then show ?case by (rule exI)
next
  case (Suc n)
  obtain res r where c: "construct_solution choice e s t rng = (res, r)"
    by (cases "construct_solution choice e s t rng")
  have fail: ?case if "out = Inl err" "e1 = e" for err
  proof -
    from that have "(\<forall>all_tours. out = Inr all_tours \<longrightarrow> all_tours = acc @ [])
     \<and> (\<forall>(tour, d) \<in> set []. calculate_distance e tour = Inr d
           \<and> (\<exists>r r'. construct_solution choice e s t r = (Inr tour, r')))
     \<and> ((best_distance e1 = best_distance e \<and> best_tour e1 = best_tour e)
        \<or> (\<exists>(tour, d) \<in> set []. less_best d (best_distance e)
               \<and> best_distance e1 = Finite d \<and> best_tour e1 = Some tour))"
      by auto
    then show ?thesis by (rule exI)
  qed
  show ?case
  proof (cases res)
    case (Inl err)
    with Suc.prems c have "out = Inl err" "e1 = e" by simp_all
    then show ?thesis by (rule fail)
  next
    case (Inr tour)
    show ?thesis
    proof (cases "calculate_distance e tour")
      case (Inl err)
      with Suc.prems c Inr have "out = Inl err" "e1 = e" by simp_all
      then show ?thesis by (rule fail)
    next
      case d: (Inr distance)
      let ?e = "if less_best distance (best_distance e)
                then e\<lparr>best_distance := Finite distance, best_tour := Some tour\<rparr> else e"
      from Suc.prems c Inr d
      have rec: "ants_loop choice n s t ?e r (acc @ [(tour, distance)]) = (out, e1, rng1)" by simp
      have le_mid: "float_le (best_distance ?e) (best_distance e)"
        by (simp add: less_best_le)
      have cs: "construct_solution choice ?e s t = construct_solution choice e s t"
        by (auto simp: construct_solution_best)
      have cd: "calculate_distance ?e = calculate_distance e"
        by (auto simp: calculate_distance_best)
      from Suc.IH[OF rec] obtain new where
        n1: "\<forall>all_tours. out = Inr all_tours \<longrightarrow> all_tours = (acc @ [(tour, distance)]) @ new" and
        n2: "\<forall>(tour, d) \<in> set new. calculate_distance e tour = Inr d
               \<and> (\<exists>r r'. construct_solution choice e s t r = (Inr tour, r'))" and
        n3: "(best_distance e1 = best_distance ?e \<and> best_tour e1 = best_tour ?e)
             \<or> (\<exists>(tour, d) \<in> set new. less_best d (best_distance ?e)
                    \<and> best_distance e1 = Finite d \<and> best_tour e1 = Some tour)"
        unfolding cs cd by blast
      let ?new = "(tour, distance) # new"
      have a1: "\<forall>all_tours. out = Inr all_tours \<longrightarrow> all_tours = acc @ ?new"
        using n1 by simp
      have a2: "\<forall>(tour, d) \<in> set ?new. calculate_distance e tour = Inr d
               \<and> (\<exists>r r'. construct_solution choice e s t r = (Inr tour, r'))"
        using n2 d c Inr by auto
      have a3: "(best_distance e1 = best_distance e \<and> best_tour e1 = best_tour e)
             \<or> (\<exists>(tour, d) \<in> set ?new. less_best d (best_distance e)
                    \<and> best_distance e1 = Finite d \<and> best_tour e1 = Some tour)"
        using n3
      proof
        assume same: "best_distance e1 = best_distance ?e \<and> best_tour e1 = best_tour ?e"
        show ?thesis
        proof (cases "less_best distance (best_distance e)")
          case True
          with same have "less_best distance (best_distance e)
             \<and> best_distance e1 = Finite distance \<and> best_tour e1 = Some tour" by simp
          then show ?thesis by auto
        next
          case False
          with same show ?thesis by simp
        qed
      next
        assume "\<exists>(tour, d) \<in> set new. less_best d (best_distance ?e)
                    \<and> best_distance e1 = Finite d \<and> best_tour e1 = Some tour"
        then obtain tour' d' where m: "(tour', d') \<in> set new" and
          l: "less_best d' (best_distance ?e)" and
          b: "best_distance e1 = Finite d'" "best_tour e1 = Some tour'" by auto
        from less_best_mono[OF l le_mid] have "less_best d' (best_distance e)" .
        with m b show ?thesis by auto
      qed
      from a1 a2 a3 show ?thesis by blast
    qed
  qed
qed


lemma run_iteration_after_ants:
  assumes "run_iteration choice e s t rng = (out, e', rng')"
  shows "\<exists>out1 e1 rng1. ants_loop choice (nat (num_ants e)) s t e rng [] = (out1, e1, rng1)
           \<and> best_distance e' = best_distance e1 \<and> best_tour e' = best_tour e1
           \<and> (\<forall>res. out = Inr res \<longrightarrow>
                 (\<exists>all_tours. out1 = Inr all_tours)
                 \<and> history e' = history e @ [best_distance e']
                 \<and> res = (best_tour e', best_distance e', np_mean (map snd (projr out1))))"
proof -
  obtain out1 e1 rng1 where a: "ants_loop choice (nat (num_ants e)) s t e rng [] = (out1, e1, rng1)"
    by (cases "ants_loop choice (nat (num_ants e)) s t e rng []") auto
  from ants_loop_engine[OF a] obtain bd bt where e1: "e1 = e\<lparr>best_distance := bd, best_tour := bt\<rparr>"
    by blast
  show ?thesis
  proof (cases out1)
    case (Inl err)
    with a assms have "out = Inl err" "e' = e1" by (simp_all add: run_iteration_def)
    with a show ?thesis by auto
  next
    case (Inr all_tours)
    obtain r e2 where u: "update_pheromones e1 all_tours = (r, e2)"
      by (cases "update_pheromones e1 all_tours")
    from update_pheromones_engine[OF u] obtain ph' where e2: "e2 = e1\<lparr>pheromones := ph'\<rparr>"
      by blast
    show ?thesis
    proof (cases r)
      case (Inl err)
      with a Inr u assms have "out = Inl err" "e' = e2" by (simp_all add: run_iteration_def)
      with a e2 show ?thesis by auto
    next
      case u': (Inr uu)
      with a Inr u assms have
        "out = Inr (best_tour e2, best_distance e2, np_mean (map snd all_tours))"
        "e' = e2\<lparr>history := history e2 @ [best_distance e2]\<rparr>"
        by (simp_all add: run_iteration_def Let_def)
      with a e1 e2 Inr show ?thesis by auto
    qed
  qed
qed

lemma history_inv_step:
  assumes "history_inv e" "float_le b (best_distance e)"
    and "best_distance e' = b" "history e' = history e @ [b]"
  shows "history_inv e'"
proof -
  from assms(1) have s: "sorted_wrt (\<lambda>x y. float_le y x) (history e)" and
    l: "\<forall>x \<in> set (history e). float_le (best_distance e) x"
    by (simp_all add: history_inv_def)
  from l assms(2) have l': "\<forall>x \<in> set (history e). float_le b x"
    using float_le_trans by blast
  show ?thesis
    unfolding history_inv_def assms(3,4)
    using s l' by (simp add: sorted_wrt_append)
qed

lemma ants_loop_le:
  assumes "ants_loop choice n s t e rng acc = (out, e1, rng1)"
  shows "float_le (best_distance e1) (best_distance e)"
proof -
  from ants_loop_best[OF assms] obtain new where
    "(best_distance e1 = best_distance e \<and> best_tour e1 = best_tour e)
        \<or> (\<exists>(tour, d) \<in> set new. less_best d (best_distance e)
               \<and> best_distance e1 = Finite d \<and> best_tour e1 = Some tour)"
    by (elim exE conjE)
  then show ?thesis
  proof
    assume "best_distance e1 = best_distance e \<and> best_tour e1 = best_tour e"
    then show ?thesis by simp
  next
    assume "\<exists>(tour, d) \<in> set new. less_best d (best_distance e)
               \<and> best_distance e1 = Finite d \<and> best_tour e1 = Some tour"
    then obtain td :: "nat list \<times> real" where "less_best (snd td) (best_distance e)"
      "best_distance e1 = Finite (snd td)"
      by (auto simp: case_prod_unfold)
    then show ?thesis by (simp add: less_best_le)
  qed
qed

lemma run_iteration_best:
  assumes "run_iteration choice e s t rng = (out, e', rng')"
  shows "float_le (best_distance e') (best_distance e)"
proof -
  from run_iteration_after_ants[OF assms] obtain out1 e1 rng1 where
    a: "ants_loop choice (nat (num_ants e)) s t e rng [] = (out1, e1, rng1)" and
    b: "best_distance e' = best_distance e1"
    by (elim exE conjE)
  from ants_loop_le[OF a] b show ?thesis by simp
qed

lemma run_calls_history:
  "history_inv e \<Longrightarrow> run_calls choice calls e rng = (Inr results, e', rng') \<Longrightarrow>
   history_inv e' \<and> history e' = history e @ map (\<lambda>res. fst (snd res)) results
   \<and> length results = length calls"
proof (induction calls arbitrary: e rng results)
  case Nil
  then show ?case by simp
next
  case (Cons call calls)
  obtain s t where call: "call = (s, t)" by (cases call)
  obtain out ea ra where ri: "run_iteration choice e s t rng = (out, ea, ra)"
    by (cases "run_iteration choice e s t rng") auto
  from Cons.prems(2) call ri obtain res rest where
    out: "out = Inr res" and rc: "run_calls choice calls ea ra = (Inr rest, e', rng')" and
    results: "results = res # rest"
    by (auto split: sum.splits prod.splits)
  from run_iteration_after_ants[OF ri]
  obtain out1 :: "py_error + (nat list \<times> real) list" where
    "\<forall>res. out = Inr res \<longrightarrow>
                 (\<exists>all_tours. out1 = Inr all_tours)
                 \<and> history ea = history e @ [best_distance ea]
                 \<and> res = (best_tour ea, best_distance ea, np_mean (map snd (projr out1)))"
    by (elim exE conjE)
  with out have
    h: "history ea = history e @ [best_distance ea]" and r: "fst (snd res) = best_distance ea"
    by simp_all
  from history_inv_step[OF Cons.prems(1) run_iteration_best[OF ri] refl h]
  have inv: "history_inv ea" .
  from Cons.IH[OF inv rc] h r results show ?case by simp
qed

lemma demo_run_iteration:
  "\<exists>ph'. run_iteration draws_choice demo_engine 0 2 [9 / 10, 1 / 2, 9 / 10, 1 / 2] =
     (Inr (Some [0, 3, Suc 0, 2], Finite 12, Some 12),
      demo_engine\<lparr>best_distance := Finite 12, best_tour := Some [0, 3, Suc 0, 2],
                   pheromones := ph', history := [Finite 12]\<rparr>, [])"
proof -
  have sq: "square 4 (evaporate (1 / 2) (pheromones demo_engine))"
    using evaporate_square[OF demo_square] by blast
  have "\<forall>(tour, distance) \<in> set [([0, 3, Suc 0, 2], 12 :: real), ([0, 3, Suc 0, 2], 12)].
          distance \<noteq> 0 \<and> (\<forall>c \<in> set tour. c < 4)"
    by simp
  from tours_loop_square[OF sq this, of 100] obtain ph' where t:
    "tours_loop 100 (evaporate (1 / 2) (pheromones demo_engine))
       [([0, 3, Suc 0, 2], 12), ([0, 3, Suc 0, 2], 12)] = (Inr (), ph')"
    by blast
  have upd: "update_pheromones
       (demo_engine\<lparr>best_distance := Finite 12, best_tour := Some [0, 3, Suc 0, 2]\<rparr>)
       [([0, 3, Suc 0, 2], 12), ([0, 3, Suc 0, 2], 12)]
     = (Inr (), demo_engine\<lparr>best_distance := Finite 12, best_tour := Some [0, 3, Suc 0, 2],
                            pheromones := ph'\<rparr>)"
    using t by (simp add: update_pheromones_def demo_ants)
  have n: "nat (num_ants demo_engine) = Suc (Suc 0)"
    by (simp add: demo_ants)
  have "run_iteration draws_choice demo_engine 0 2 [9 / 10, 1 / 2, 9 / 10, 1 / 2] =
     (Inr (Some [0, 3, Suc 0, 2], Finite 12, Some 12),
      demo_engine\<lparr>best_distance := Finite 12, best_tour := Some [0, 3, Suc 0, 2],
                   pheromones := ph', history := [Finite 12]\<rparr>, [])"
    unfolding run_iteration_def n demo_ants_loop
    by (simp add: upd np_mean_def demo_ants)
  then show ?thesis by (rule exI)
qed

text \<open>
  Claim C2. After a call of \<open>run_iteration\<close>, whether it returned or raised, the best
  distance is at most what it was before the call; if it is strictly smaller, it is the
  distance of a tour that an ant built in this generation and that was strictly shorter
  than the previous best, and the best tour is that tour. After k calls on a new engine
  the history holds k entries, the best distances the calls returned, and no entry is
  larger than the one before it.
\<close>

theorem best_distance_never_increases:
  "(\<forall>out e' rng'. run_iteration choice e start_city end_city rng = (out, e', rng') \<longrightarrow>
      float_le (best_distance e') (best_distance e)
      \<and> (float_less (best_distance e') (best_distance e) \<longrightarrow>
           (\<exists>out1 e1 rng1 tour d.
              ants_loop choice (nat (num_ants e)) start_city end_city e rng [] = (out1, e1, rng1)
              \<and> (\<forall>all_tours. out1 = Inr all_tours \<longrightarrow> (tour, d) \<in> set all_tours)
              \<and> (\<exists>r r'. construct_solution choice e start_city end_city r = (Inr tour, r'))
              \<and> calculate_distance e tour = Inr d \<and> less_best d (best_distance e)
              \<and> best_distance e' = Finite d \<and> best_tour e' = Some tour)))
   \<and> (\<forall>results e' rng'.
        run_calls choice calls (AntColonyOptimization dm ants a b rho q) rng0
          = (Inr results, e', rng') \<longrightarrow>
        length (history e') = length calls
        \<and> history e' = map (\<lambda>res. fst (snd res)) results
        \<and> (\<forall>i. i + 1 < length (history e') \<longrightarrow>
               float_le (history e' ! (i + 1)) (history e' ! i)))"
proof (intro conjI allI impI)
  fix out e' rng'
  assume ri: "run_iteration choice e start_city end_city rng = (out, e', rng')"
  show "float_le (best_distance e') (best_distance e)"
    by (rule run_iteration_best[OF ri])
  assume less: "float_less (best_distance e') (best_distance e)"
  from run_iteration_after_ants[OF ri] obtain out1 e1 rng1 where
    a: "ants_loop choice (nat (num_ants e)) start_city end_city e rng [] = (out1, e1, rng1)" and
    b: "best_distance e' = best_distance e1" "best_tour e' = best_tour e1"
    by (elim exE conjE)
  from ants_loop_best[OF a] obtain new where
    n1: "\<forall>all_tours. out1 = Inr all_tours \<longrightarrow> all_tours = [] @ new" and
    n2: "\<forall>(tour, d) \<in> set new. calculate_distance e tour = Inr d
           \<and> (\<exists>r r'. construct_solution choice e start_city end_city r = (Inr tour, r'))" and
    n3: "(best_distance e1 = best_distance e \<and> best_tour e1 = best_tour e)
        \<or> (\<exists>(tour, d) \<in> set new. less_best d (best_distance e)
               \<and> best_distance e1 = Finite d \<and> best_tour e1 = Some tour)"
    by (elim exE conjE)
  from less b have "best_distance e1 \<noteq> best_distance e" by auto
  with n3 have "\<exists>(tour, d) \<in> set new. less_best d (best_distance e)
               \<and> best_distance e1 = Finite d \<and> best_tour e1 = Some tour"
    by blast
  then obtain tour d where m: "(tour, d) \<in> set new" and
    l: "less_best d (best_distance e)" and
    bd: "best_distance e1 = Finite d" "best_tour e1 = Some tour"
    by auto
  from n2 m have cd: "calculate_distance e tour = Inr d" and
    cs: "\<exists>r r'. construct_solution choice e start_city end_city r = (Inr tour, r')"
    by auto
  from n1 m have "\<forall>all_tours. out1 = Inr all_tours \<longrightarrow> (tour, d) \<in> set all_tours" by auto
  with a cs cd l bd b
  show "\<exists>out1 e1 rng1 tour d.
              ants_loop choice (nat (num_ants e)) start_city end_city e rng [] = (out1, e1, rng1)
              \<and> (\<forall>all_tours. out1 = Inr all_tours \<longrightarrow> (tour, d) \<in> set all_tours)
              \<and> (\<exists>r r'. construct_solution choice e start_city end_city r = (Inr tour, r'))
              \<and> calculate_distance e tour = Inr d \<and> less_best d (best_distance e)
              \<and> best_distance e' = Finite d \<and> best_tour e' = Some tour"
    by (intro exI[of _ out1] exI[of _ e1] exI[of _ rng1] exI[of _ tour] exI[of _ d]) simp
next
  fix results e' rng'
  assume rc: "run_calls choice calls (AntColonyOptimization dm ants a b rho q) rng0
          = (Inr results, e', rng')"
  have "history_inv (AntColonyOptimization dm ants a b rho q)"
    by (simp add: history_inv_def AntColonyOptimization_def)
  from run_calls_history[OF this rc] have inv: "history_inv e'" and
    h: "history e' = map (\<lambda>res. fst (snd res)) results" and len: "length results = length calls"
    by (simp_all add: AntColonyOptimization_def)
  show "length (history e') = length calls" using h len by simp
  show "history e' = map (\<lambda>res. fst (snd res)) results" by (rule h)
  fix i assume "i + 1 < length (history e')"
  with inv show "float_le (history e' ! (i + 1)) (history e' ! i)"
    by (simp add: history_inv_def sorted_wrt_iff_nth_less)
qed

theorem best_distance_never_increases_witness:
  "fst (run_iteration draws_choice demo_engine 0 2 [9 / 10, 1 / 2, 9 / 10, 1 / 2])
     = Inr (Some [0, 3, 1, 2], Finite 12, Some 12)
   \<and> best_distance demo_engine = PosInf
   \<and> best_distance (fst (snd (run_iteration draws_choice demo_engine 0 2
        [9 / 10, 1 / 2, 9 / 10, 1 / 2]))) = Finite 12
   \<and> float_le (Finite 12) PosInf \<and> float_less (Finite 12) PosInf
   \<and> calculate_distance demo_engine [0, 3, 1, 2] = Inr 12
   \<and> fst (run_calls draws_choice [(0, 2)] (AntColonyOptimization demo_matrix 2 1 1 (1 / 2) 100)
        [9 / 10, 1 / 2, 9 / 10, 1 / 2]) = Inr [(Some [0, 3, 1, 2], Finite 12, Some 12)]
   \<and> history (fst (snd (run_calls draws_choice [(0, 2)]
        (AntColonyOptimization demo_matrix 2 1 1 (1 / 2) 100)
        [9 / 10, 1 / 2, 9 / 10, 1 / 2]))) = [Finite 12]"
proof -
  let ?rng = "[9 / 10, 1 / 2, 9 / 10, 1 / 2] :: real list"
  from demo_run_iteration obtain ph' where ri:
    "run_iteration draws_choice demo_engine 0 2 ?rng =
     (Inr (Some [0, 3, Suc 0, 2], Finite 12, Some 12),
      demo_engine\<lparr>best_distance := Finite 12, best_tour := Some [0, 3, Suc 0, 2],
                   pheromones := ph', history := [Finite 12]\<rparr>, [])"
    by blast
  have rc: "run_calls draws_choice [(0, 2)] (AntColonyOptimization demo_matrix 2 1 1 (1 / 2) 100) ?rng =
     (Inr [(Some [0, 3, Suc 0, 2], Finite 12, Some 12)],
      demo_engine\<lparr>best_distance := Finite 12, best_tour := Some [0, 3, Suc 0, 2],
                   pheromones := ph', history := [Finite 12]\<rparr>, [])"
    using ri by (simp add: demo_engine_def)
  note inst = best_distance_never_increases[of draws_choice demo_engine 0 2 ?rng
      "[(0, 2)]" demo_matrix 2 1 1 "1 / 2" 100 ?rng]
  from inst ri have
    "float_le (best_distance (demo_engine\<lparr>best_distance := Finite 12,
        best_tour := Some [0, 3, Suc 0, 2], pheromones := ph', history := [Finite 12]\<rparr>))
       (best_distance demo_engine)"
    by blast
  moreover from inst rc have
    "length (history (demo_engine\<lparr>best_distance := Finite 12,
        best_tour := Some [0, 3, Suc 0, 2], pheromones := ph', history := [Finite 12]\<rparr>))
      = length [(0 :: nat, 2 :: nat)]"
    by blast
  ultimately show ?thesis
    using ri rc by (simp add: demo_ants demo_distance)
qed

end
